theory Spec2Isabelle
  imports Complex_Main
begin

unbundle bit_operations_syntax

section \<open>Conventions of the embedding\<close>

text \<open>
  Arrays of single-precision numbers are modelled over the mathematical reals and complex
  numbers, so rounding is not part of the model. A result that floating point reports as
  \<open>nan\<close> or \<open>inf\<close> (the square root of a negative number, the logarithm of a number that is
  not positive, a division by zero, the mean of an array without entries) is the value
  \<open>None\<close>; every finite result is \<open>Some\<close> of a real number. A Python exception is a value
  of type \<open>error\<close>, returned on the left of a sum. \<open>WeightsAllZero\<close> is the
  \<open>ValueError('eigen_probe weights cannot all be zero?')\<close> of \<open>update_eigen_probe\<close>, kept
  apart from the other \<open>ValueError\<close>s; \<open>BroadcastCase\<close> marks a call whose operand shapes
  differ, where numpy either broadcasts an axis of length one or raises \<open>ValueError\<close>, or
  whose nested lists do not form a rectangular array: the model does not follow such a call
  further.
\<close>

datatype error =
    AttributeError
  | AssertionError
  | IndexError
  | ValueError
  | ZeroDivisionError
  | OverflowError
  | LaunchError
  | LinAlgError
  | WeightsAllZero
  | BroadcastCase

definition fsqrt :: "real \<Rightarrow> real option" where
  "fsqrt x = (if x < 0 then None else Some (sqrt x))"

definition flog :: "real \<Rightarrow> real option" where
  "flog x = (if x \<le> 0 then None else Some (ln x))"

text \<open>
  \<open>mean\<close> over all entries of an array: not finite when one entry is not finite or when the
  array has no entry (numpy and cupy return \<open>nan\<close> for the mean of an empty array).
\<close>

definition mean_arr :: "real option list \<Rightarrow> real option" where
  "mean_arr xs =
     (case those xs of
        None \<Rightarrow> None
      | Some ys \<Rightarrow> if ys = [] then None else Some (sum_list ys / real (length ys)))"

section \<open>Noise-model objectives (operators/cupy/objective.py)\<close>

text \<open>
  The arrays \<open>data\<close> and \<open>intensity\<close> have the same shape \<open>(N, M, M)\<close>; they are given
  flattened in row-major order, so that concatenating batches along the first axis is list
  concatenation. The fused kernels work entry by entry.
\<close>

definition eps9 :: real where
  "eps9 = 1 / 10 ^ 9"

definition gaussian_fuse :: "real \<Rightarrow> real \<Rightarrow> real option" where
  "gaussian_fuse d i =
     (case fsqrt i of
        None \<Rightarrow> None
      | Some a \<Rightarrow>
          (case fsqrt d of
             None \<Rightarrow> None
           | Some b \<Rightarrow> Some ((a - b) * (a - b))))"

definition gaussian :: "real list \<Rightarrow> real list \<Rightarrow> real option" where
  "gaussian data intensity = mean_arr (map2 gaussian_fuse data intensity)"

definition poisson_fuse :: "real \<Rightarrow> real \<Rightarrow> real option" where
  "poisson_fuse d i =
     (case flog (i + eps9) of
        None \<Rightarrow> None
      | Some l \<Rightarrow> Some (i - d * l))"

definition poisson :: "real list \<Rightarrow> real list \<Rightarrow> real option" where
  "poisson data intensity = mean_arr (map2 poisson_fuse data intensity)"

text \<open>The batch formed by concatenating \<open>k\<close> copies of an array along its first axis.\<close>

definition batch_copies :: "nat \<Rightarrow> 'a list \<Rightarrow> 'a list" where
  "batch_copies k xs = concat (replicate k xs)"

section \<open>Costs of the propagation operator (operators/propagation.py)\<close>

text \<open>
  \<open>farplane.reshape(*data.shape[:2], -1, *data.shape[2:])\<close> gathers, for every entry of
  \<open>data\<close>, the farplane values of all modes along axis 2. The model gives \<open>farplane\<close> as
  one list of mode values per entry of \<open>data\<close>, in the order of the flattened \<open>data\<close>.
  \<open>np.linalg.norm(..., ord=2, axis=2)\<close> is the root of the sum of the squared magnitudes.
  The definitions are for \<open>data\<close> with at least one entry: of an array without entries the
  reshape to \<open>-1\<close> raises \<open>ValueError\<close>, where the definitions give the cost \<open>0\<close>.
\<close>

definition eps32 :: real where
  "eps32 = 1 / 10 ^ 32"

definition norm2 :: "complex list \<Rightarrow> real" where
  "norm2 zs = sqrt (sum_list (map (\<lambda>z. (cmod z)\<^sup>2) zs))"

definition norm2_real :: "real list \<Rightarrow> real" where
  "norm2_real xs = sqrt (sum_list (map (\<lambda>x. \<bar>x\<bar>\<^sup>2) xs))"

definition gaussian_cost :: "real list \<Rightarrow> complex list list \<Rightarrow> real option" where
  "gaussian_cost data farplane =
     (case those (map2 (\<lambda>f d. map_option (\<lambda>s. norm2 f - s) (fsqrt d)) farplane data) of
        None \<Rightarrow> None
      | Some ds \<Rightarrow> Some ((norm2_real ds)\<^sup>2))"

definition poisson_cost :: "real list \<Rightarrow> complex list list \<Rightarrow> real option" where
  "poisson_cost data farplane =
     (case those (map2 (\<lambda>f d. let intensity = (norm2 f)\<^sup>2 in
                          map_option (\<lambda>l. intensity - d * l) (flog (intensity + eps32)))
                   farplane data) of
        None \<Rightarrow> None
      | Some terms \<Rightarrow> Some (sum_list terms))"

section \<open>Patch operator (operators/cupy/patch.py)\<close>

text \<open>
  An array is its shape, its dtype and its entries in row-major order. Python's negative
  indexing and slicing of a shape tuple are written out: \<open>from_end n s\<close> is \<open>s[-n]\<close> for
  \<open>n \<ge> 1\<close>, which raises \<open>IndexError\<close> on a tuple shorter than \<open>n\<close>; \<open>lead n s\<close> is \<open>s[:-n]\<close>
  and \<open>tail2 s\<close> is \<open>s[-2:]\<close>, which never raise.
\<close>

datatype dtype = Csingle | Cdouble | Single | Double

record 'a ndarray =
  shape :: "nat list"
  dtype :: dtype
  elems :: "'a list"

definition from_end :: "nat \<Rightarrow> 'a list \<Rightarrow> error + 'a" where
  "from_end n s = (if length s < n then Inl IndexError else Inr (s ! (length s - n)))"

definition lead :: "nat \<Rightarrow> 'a list \<Rightarrow> 'a list" where
  "lead n s = take (length s - n) s"

definition tail2 :: "'a list \<Rightarrow> 'a list" where
  "tail2 s = drop (length s - 2) s"

definition ebind :: "error + 'a \<Rightarrow> ('a \<Rightarrow> error + 'b) \<Rightarrow> error + 'b" where
  "ebind m f = (case m of Inl e \<Rightarrow> Inl e | Inr x \<Rightarrow> f x)"

definition py_assert :: "bool \<Rightarrow> error + 'a \<Rightarrow> error + 'a" where
  "py_assert b rest = (if b then rest else Inl AssertionError)"

text \<open>\<open>cp.zeros(shape, dtype=np.csingle)\<close>: a negative dimension raises \<open>ValueError\<close>.\<close>

definition zeros :: "int list \<Rightarrow> error + complex ndarray" where
  "zeros dims =
     (if list_ex (\<lambda>d. d < 0) dims then Inl ValueError
      else Inr \<lparr>shape = map nat dims, dtype = Csingle,
                elems = replicate (prod_list (map nat dims)) 0\<rparr>)"

text \<open>\<open>_next_power_two\<close>, on Python's unbounded integers (\<open>>>\<close> is the arithmetic shift).\<close>

definition next_power_two :: "int \<Rightarrow> int" where
  "next_power_two v0 =
     (let v = v0 - 1;
          v = v OR drop_bit 1 v;
          v = v OR drop_bit 2 v;
          v = v OR drop_bit 4 v;
          v = v OR drop_bit 8 v;
          v = v OR drop_bit 16 v
      in v + 1)"

text \<open>
  The CUDA kernels \<open>fwd_patch\<close> and \<open>adj_patch\<close> are compiled from \<open>convolution.cu\<close>, which
  is not part of the sources at hand: a kernel is a parameter of the model. It receives the
  launch (grid, block, the three buffers and the scalar arguments in the order of the
  call) and either fails or yields the new entries of the buffer it writes (the patches
  for \<open>fwd_patch\<close>, the images for \<open>adj_patch\<close>). \<open>max_threads\<close> is the kernel attribute
  \<open>max_threads_per_block\<close>.
\<close>

record patch_launch =
  grids :: "int \<times> int \<times> int"
  blocks :: int
  arg_images :: "complex list"
  arg_patches :: "complex list"
  arg_positions :: "real list"
  arg_scalars :: "int list"

type_synonym patch_kernel = "patch_launch \<Rightarrow> error + complex list"

definition Patch_fwd ::
  "patch_kernel \<Rightarrow> int \<Rightarrow> complex ndarray \<Rightarrow> real ndarray \<Rightarrow> complex ndarray option \<Rightarrow>
   int \<Rightarrow> int \<Rightarrow> error + complex ndarray" where
  "Patch_fwd fwd_patch max_threads images positions patches patch_width nrepeat =
     ebind (if patch_width = 0
            then (case patches of
                    None \<Rightarrow> Inl AttributeError
                  | Some p \<Rightarrow> ebind (from_end 1 (shape p)) (\<lambda>w. Inr (int w)))
            else Inr patch_width) (\<lambda>patch_width.
     ebind (case patches of
              None \<Rightarrow>
                ebind (from_end 2 (shape positions)) (\<lambda>n.
                  zeros (map int (lead 2 (shape positions)) @
                         [int n * nrepeat, patch_width, patch_width]))
            | Some p \<Rightarrow> Inr p) (\<lambda>patches.
     ebind (from_end 1 (shape patches)) (\<lambda>w.
     py_assert (patch_width \<le> int w) (
     py_assert (lead 2 (shape images) = lead 2 (shape positions)) (
     py_assert (lead 2 (shape positions) = lead 3 (shape patches)) (
     ebind (from_end 2 (shape positions)) (\<lambda>n.
     ebind (from_end 3 (shape patches)) (\<lambda>k.
     py_assert (int n * nrepeat = int k) (
     ebind (from_end 1 (shape positions)) (\<lambda>c.
     py_assert (c = 2) (
     py_assert (dtype images = Csingle) (
     py_assert (dtype patches = Csingle) (
     py_assert (dtype positions = Single) (
     let nimage = int (prod_list (lead 2 (shape images))) in
     ebind (fwd_patch
              \<lparr>grids = (int n, nimage, patch_width),
               blocks = min (next_power_two patch_width) max_threads,
               arg_images = elems images,
               arg_patches = elems patches,
               arg_positions = elems positions,
               arg_scalars = [nimage] @ map int (tail2 (shape images)) @
                             [int n, nrepeat, patch_width, int w]\<rparr>) (\<lambda>out.
     Inr (patches\<lparr>elems := out\<rparr>))))))))))))))))"

definition Patch_adj ::
  "patch_kernel \<Rightarrow> int \<Rightarrow> real ndarray \<Rightarrow> complex ndarray \<Rightarrow> complex ndarray option \<Rightarrow>
   int \<Rightarrow> int \<Rightarrow> int \<Rightarrow> int \<Rightarrow> error + complex ndarray" where
  "Patch_adj adj_patch max_threads positions patches images patch_width height width nrepeat =
     ebind (if patch_width = 0
            then ebind (from_end 1 (shape patches)) (\<lambda>w. Inr (int w))
            else Inr patch_width) (\<lambda>patch_width.
     ebind (from_end 1 (shape patches)) (\<lambda>w.
     py_assert (patch_width \<le> int w) (
     ebind (case images of
              None \<Rightarrow> zeros (map int (lead 2 (shape positions)) @ [height, width])
            | Some i \<Rightarrow> Inr i) (\<lambda>images.
     let leading = lead 2 (shape images) in
     ebind (case tail2 (shape images) of
              [h, w] \<Rightarrow> Inr (h, w)
            | _ \<Rightarrow> Inl ValueError) (\<lambda>(height, width).
     py_assert (lead 2 (shape positions) = leading) (
     ebind (from_end 2 (shape positions)) (\<lambda>N.
     ebind (from_end 1 (shape positions)) (\<lambda>c.
     py_assert (c = 2) (
     py_assert (lead 3 (shape patches) = leading) (
     ebind (from_end 3 (shape patches)) (\<lambda>K.
     ebind (if K = 0 then Inl ZeroDivisionError
            else Inr ((int N * nrepeat) mod int K = 0 \<and> int K \<ge> nrepeat)) (\<lambda>ok.
     py_assert ok (
     ebind (from_end 1 (shape patches)) (\<lambda>w1.
     ebind (from_end 2 (shape patches)) (\<lambda>w2.
     py_assert (w1 = w2) (
     py_assert (dtype images = Csingle) (
     py_assert (dtype patches = Csingle) (
     py_assert (dtype positions = Single) (
     let nimage = int (prod_list (lead 2 (shape images))) in
     ebind (adj_patch
              \<lparr>grids = (int N, nimage, patch_width),
               blocks = min (next_power_two patch_width) max_threads,
               arg_images = elems images,
               arg_patches = elems patches,
               arg_positions = elems positions,
               arg_scalars = [nimage, int height, int width, int N, nrepeat, patch_width,
                              int w1, int K]\<rparr>) (\<lambda>out.
     Inr (images\<lparr>elems := out\<rparr>)))))))))))))))))))))"

section \<open>Divided solver (ptycho/solvers/divided.py)\<close>

text \<open>
  \<open>divided\<close> calls the forward operator \<open>op.fwd\<close>, the adjoint propagation
  \<open>op.propagation.adj\<close> and the three sub-solvers \<open>update_phase\<close>, \<open>update_object\<close> and
  \<open>update_probe\<close>. The sub-solvers rest on \<open>tike.opt\<close> (\<open>conjugate_gradient\<close>,
  \<open>direction_dy\<close>) and on the diffraction operator, which are not among the sources at
  hand, so the five callees are parameters of the model, each of which may raise. Arrays
  are values: a callee returns new arrays and does not write into its arguments, as the
  bodies of \<open>update_object\<close> and \<open>update_probe\<close> do (\<open>psi = psi + ...\<close>,
  \<open>probe = probe + ...\<close>). The arguments \<open>pool\<close>, \<open>num_gpu\<close> and \<open>**kwargs\<close> are never read.
\<close>

record ('psi, 'probe, 'scan, 'data, 'field, 'cost) callees =
  op_fwd :: "'psi \<Rightarrow> 'scan \<Rightarrow> 'probe \<Rightarrow> error + 'field"
  propagation_adj :: "'field \<Rightarrow> error + 'field"
  update_phase :: "'data \<Rightarrow> 'field \<Rightarrow> int \<Rightarrow> error + 'field \<times> 'cost"
  update_object :: "'field \<Rightarrow> 'probe \<Rightarrow> 'scan \<Rightarrow> 'psi \<Rightarrow> int \<Rightarrow> error + 'psi \<times> 'cost"
  update_probe :: "'field \<Rightarrow> 'probe \<Rightarrow> 'scan \<Rightarrow> 'psi \<Rightarrow> int \<Rightarrow> error + 'probe \<times> 'cost"

text \<open>The dictionary that \<open>divided\<close> returns, one field per key.\<close>

record ('psi, 'probe, 'scan, 'field, 'cost) solution =
  sol_psi :: 'psi
  sol_probe :: 'probe
  sol_cost :: 'cost
  sol_scan :: 'scan
  sol_farplane :: 'field

definition divided ::
  "('psi, 'probe, 'scan, 'data, 'field, 'cost) callees \<Rightarrow> 'data \<Rightarrow> 'probe \<Rightarrow> 'scan \<Rightarrow> 'psi \<Rightarrow>
   bool \<Rightarrow> bool \<Rightarrow> bool \<Rightarrow> int \<Rightarrow> error + ('psi, 'probe, 'scan, 'field, 'cost) solution" where
  "divided op data probe scan psi recover_psi recover_probe recover_positions cg_iter =
     ebind (op_fwd op psi scan probe) (\<lambda>farplane.
     ebind (update_phase op data farplane cg_iter) (\<lambda>(farplane, cost).
     ebind (propagation_adj op farplane) (\<lambda>nearplane.
     ebind (if recover_psi then update_object op nearplane probe scan psi cg_iter
            else Inr (psi, cost)) (\<lambda>(psi, cost).
     ebind (if recover_probe then update_probe op nearplane probe scan psi cg_iter
            else Inr (probe, cost)) (\<lambda>(probe, cost).
     Inr \<lparr>sol_psi = psi, sol_probe = probe, sol_cost = cost, sol_scan = scan,
          sol_farplane = farplane\<rparr>)))))"

section \<open>Variable probe: outlier clipping of the weights (ptycho/probe.py)\<close>

text \<open>
  \<open>cp.percentile(a, [q], axis=[-3], keepdims=True)\<close> is a library function: along the
  position axis it sorts the values and interpolates linearly between the two ranks around
  \<open>q / 100 * (n - 1)\<close> (the default method). It is defined for a column with at least one
  value and \<open>0 \<le> q \<le> 100\<close>.
\<close>

definition percentile :: "real list \<Rightarrow> real \<Rightarrow> real option" where
  "percentile xs q =
     (if xs = [] \<or> q < 0 \<or> 100 < q then None
      else
        let ys = sort xs;
            h = q / 100 * real (length xs - 1);
            lo = nat \<lfloor>h\<rfloor>;
            hi = min (lo + 1) (length xs - 1)
        in Some (ys ! lo + (h - real lo) * (ys ! hi - ys ! lo)))"

text \<open>
  The weights have shape \<open>(POSI, EIGEN, SHARED)\<close>: a list of positions, each a list of eigen
  modes, each a list of shared modes. \<open>p95_table\<close> is the percentile array, one value for
  every column \<open>(e, s)\<close>, taken over the positions; the clipped weights are given with the
  indices of the input (a leading axis of length one that the library may keep for the list
  \<open>[95]\<close> of percentiles does not change any entry and is not represented).
  \<open>tike.linalg.orthogonalize_gs\<close> is not among the sources at hand and is a parameter.
\<close>

definition p95_table :: "real list list list \<Rightarrow> real option list list" where
  "p95_table aevol =
     (case aevol of
        [] \<Rightarrow> []
      | r # _ \<Rightarrow>
          map (\<lambda>e. map (\<lambda>s. percentile (map (\<lambda>row. row ! e ! s) aevol) 95)
                     [0..<length (r ! e)])
              [0..<length r])"

definition constrain_variable_probe ::
  "('v \<Rightarrow> 'v) \<Rightarrow> 'v \<Rightarrow> real list list list \<Rightarrow> 'v \<times> real option list list list" where
  "constrain_variable_probe orthogonalize_gs variable_probe weights =
     (let variable_probe = orthogonalize_gs variable_probe;
          aevol = map (map (map abs)) weights;
          p95 = p95_table aevol;
          weights =
            map (\<lambda>row.
                  map2 (\<lambda>col pcol.
                         map2 (\<lambda>w q. map_option (\<lambda>q. min \<bar>w\<bar> (1.5 * q) * sgn w) q) col pcol)
                       row p95)
                weights
      in (variable_probe, weights))"

text \<open>An array of shape \<open>(POSI, E, S)\<close> as nested lists: every position has \<open>E\<close> rows of length \<open>S\<close>.\<close>

definition has_shape :: "'a list list list \<Rightarrow> nat \<Rightarrow> nat \<Rightarrow> bool" where
  "has_shape ws E S = list_all (\<lambda>row. length row = E \<and> list_all (\<lambda>col. length col = S) row) ws"

section \<open>Sparsity constraint of the probe (ptycho/probe.py)\<close>

text \<open>
  \<open>probe.reshape((-1, *probe.shape[-2:]))\<close> turns the probe into a stack of images of
  shape \<open>(WIDE, HIGH)\<close>: the model is this stack, every image flattened in row-major order,
  so that the pixel \<open>(r, c)\<close> is the entry \<open>r * HIGH + c\<close>. For images without pixels the
  length of the first axis cannot be inferred and the reshape raises \<open>ValueError\<close>. The
  low-pass filter \<open>cupyx.scipy.ndimage.gaussian_filter\<close> and the selection \<open>np.argpartition\<close>
  are library functions and parameters of the model; \<open>argpartition\<close> may raise (\<open>kth\<close> out of
  bounds). \<open>py_int\<close> is Python's \<open>int\<close> of a float (truncation towards zero), \<open>py_prefix k\<close>
  the slice \<open>[:k]\<close>. \<open>unravel_index\<close> raises \<open>ValueError\<close> on an index outside the image.
\<close>

text \<open>
  The number of pixels to zero, \<open>int((1 - f) * probe.shape[-1] * probe.shape[-2])\<close>, is the
  one place where the rounding of floating point decides an integer, so it is modelled in
  double precision: \<open>f\<close> is the real number that the Python float holds, the integers are
  converted to doubles, and every operation returns its exact result rounded to the nearest
  double, ties to even. \<open>float64 x\<close> is that rounding of the real number \<open>x\<close> (with the
  spacing of the subnormal numbers below \<open>2 powr (- 1022)\<close>), \<open>None\<close> when the result is too
  large for a double. Too large a result is \<open>inf\<close>, and \<open>int\<close> of it raises \<open>OverflowError\<close>, as does
  the conversion of an integer too large for a double (\<open>inf * 0\<close>, a \<open>nan\<close>, does not occur:
  the dimensions are not zero where the product is taken).
\<close>

record probe_stack =
  wide :: nat
  high :: nat
  modes :: "complex list list"

definition round_half_even :: "real \<Rightarrow> int" where
  "round_half_even x =
     (let n = \<lfloor>x\<rfloor>; r = x - of_int n in
      if r < 1 / 2 then n else if 1 / 2 < r then n + 1 else if even n then n else n + 1)"

definition float64 :: "real \<Rightarrow> real option" where
  "float64 x =
     (if x = 0 then Some 0
      else
        let e = max \<lfloor>log 2 \<bar>x\<bar>\<rfloor> (- 1022) - 52;
            r = of_int (round_half_even (x / 2 powr of_int e)) * 2 powr of_int e
        in if 2 ^ 1024 \<le> \<bar>r\<bar> then None else Some r)"

definition py_int :: "real \<Rightarrow> int" where
  "py_int x = (if 0 \<le> x then \<lfloor>x\<rfloor> else \<lceil>x\<rceil>)"

definition fsub :: "real \<Rightarrow> real \<Rightarrow> real option" where
  "fsub a b = float64 (a - b)"

definition fmul_int :: "real option \<Rightarrow> nat \<Rightarrow> real option" where
  "fmul_int a n =
     Option.bind a (\<lambda>x. Option.bind (float64 (real n)) (\<lambda>y. float64 (x * y)))"

definition int_of_float :: "real option \<Rightarrow> error + int" where
  "int_of_float a = (case a of None \<Rightarrow> Inl OverflowError | Some x \<Rightarrow> Inr (py_int x))"

definition py_prefix :: "int \<Rightarrow> 'a list \<Rightarrow> 'a list" where
  "py_prefix k xs = (if 0 \<le> k then take (nat k) xs else take (length xs - nat (- k)) xs)"

definition unravel_index :: "nat list \<Rightarrow> nat \<times> nat \<Rightarrow> error + (nat \<times> nat) list" where
  "unravel_index idx dims =
     (if list_ex (\<lambda>i. fst dims * snd dims \<le> i) idx then Inl ValueError
      else Inr (map (\<lambda>i. (i div snd dims, i mod snd dims)) idx))"

definition zero_at :: "nat \<Rightarrow> (nat \<times> nat) list \<Rightarrow> complex list \<Rightarrow> complex list" where
  "zero_at h coords m = fold (\<lambda>(r, c) m. m[r * h + c := 0]) coords m"

definition constrain_probe_sparsity ::
  "(real \<times> real \<Rightarrow> real list \<Rightarrow> real list) \<Rightarrow> (real list \<Rightarrow> int \<Rightarrow> error + nat list) \<Rightarrow>
   probe_stack \<Rightarrow> real \<Rightarrow> error + probe_stack" where
  "constrain_probe_sparsity gaussian_filter argpartition probe f =
     (if f = 1 then Inr probe
      else if wide probe * high probe = 0 then Inl ValueError
      else
        let intensity = map (\<lambda>i. sum_list (map (\<lambda>m. (cmod (m ! i))\<^sup>2) (modes probe)))
                            [0..<wide probe * high probe];
            sigma = (real (wide probe) / 8, real (high probe) / 8);
            intensity = gaussian_filter sigma intensity
        in ebind (int_of_float (fmul_int (fmul_int (fsub 1 f) (high probe)) (wide probe))) (\<lambda>k.
           ebind (argpartition intensity k) (\<lambda>part.
           let smallest = py_prefix k part in
           ebind (unravel_index smallest (wide probe, high probe)) (\<lambda>coords.
           Inr (probe\<lparr>modes := map (zero_at (high probe) coords) (modes probe)\<rparr>)))))"

text \<open>The number of pixel coordinates at which every image of the stack is exactly zero.\<close>

definition zero_count :: "probe_stack \<Rightarrow> nat" where
  "zero_count p =
     length (filter (\<lambda>i. list_all (\<lambda>m. m ! i = 0) (modes p)) [0..<wide p * high p])"

text \<open>
  A stack is well formed when every image has \<open>WIDE * HIGH\<close> pixels. The library contract
  used of \<open>argpartition\<close>: for \<open>0 \<le> kth < size\<close> it returns a permutation of the indices
  \<open>0 ..< size\<close>; of \<open>gaussian_filter\<close>: the output has the shape of the input.
\<close>

definition well_formed :: "probe_stack \<Rightarrow> bool" where
  "well_formed p = list_all (\<lambda>m. length m = wide p * high p) (modes p)"

definition argpartition_contract :: "(real list \<Rightarrow> int \<Rightarrow> error + nat list) \<Rightarrow> bool" where
  "argpartition_contract argpartition =
     (\<forall>xs k. 0 \<le> k \<and> k < int (length xs) \<longrightarrow>
        (\<exists>idx. argpartition xs k = Inr idx \<and> distinct idx \<and> set idx = {..<length xs}))"

definition filter_contract :: "(real \<times> real \<Rightarrow> real list \<Rightarrow> real list) \<Rightarrow> bool" where
  "filter_contract gaussian_filter = (\<forall>sigma xs. length (gaussian_filter sigma xs) = length xs)"

section \<open>Orthogonalization of probe modes (ptycho/probe.py)\<close>












section \<open>Variable probe: initialisation and eigen-probe update (ptycho/probe.py)\<close>

text \<open>
  The arrays of one worker are given with one leading axis, which stands for the leading
  dimensions \<open>...\<close> of the source flattened in row-major order: such an array is the list of
  its parts, one for every leading index. For one leading index, \<open>R\<close>, \<open>patches\<close> and \<open>diff\<close>
  have shape \<open>(POSI, 1, 1, WIDE, HIGH)\<close> and are lists of positions, each the flattened image;
  \<open>eigen_probe\<close> has shape \<open>(1, EIGEN, SHARED, WIDE, HIGH)\<close> and is a list of eigen modes, each
  a list of shared modes, each a flattened image; \<open>weights\<close> has shape
  \<open>(POSI, EIGEN + 1, SHARED)\<close>. All reductions over the two pixel axes are over both, so the
  flattening loses nothing. The indices \<open>c\<close> and \<open>m\<close> are natural numbers. The entries of the
  arguments are finite numbers; an entry that the function computes may be \<open>inf\<close> or \<open>nan\<close>
  (after a division by zero) and is \<open>None\<close> then: \<open>fimage\<close> is an image with such entries.
\<close>

type_synonym image = "complex list"
type_synonym fimage = "complex option list"
type_synonym residual = "image list"
type_synonym eigen_probes = "image list list"
type_synonym weight_array = "real list list list"

definition mean_r :: "real list \<Rightarrow> real" where
  "mean_r xs = sum_list xs / real (length xs)"

definition mean_c :: "complex list \<Rightarrow> complex" where
  "mean_c zs = sum_list zs / of_nat (length zs)"

text \<open>
  Modelled from the spec: \<open>tike.linalg.mnorm\<close> is not among the sources at hand. The spec
  says that a mode is renormalized ``to unit mean magnitude'': \<open>mnorm\<close> is the 2-norm with
  the sum replaced by the mean, over the two pixel axes. Of an image with an entry that is
  not finite it is not finite.
\<close>

definition mnorm :: "image \<Rightarrow> real" where
  "mnorm zs = sqrt (mean_r (map (\<lambda>z. (cmod z)\<^sup>2) zs))"

text \<open>
  \<open>weights[..., c:c + 1, m:m + 1]\<close> and \<open>eigen_probe[..., c - 1:c, m:m + 1, :, :]\<close>, for one
  leading index: a slice never raises; out of range it is an array without entries (as is
  the slice \<open>-1:0\<close> for \<open>c = 0\<close>), given here as \<open>None\<close>. \<open>norm_weights\<close> lists the entries of
  the array of that name, one squared norm over the positions for every leading index, and
  none when the slice is empty (without any position the model lists no entry, where the
  array holds entries \<open>0\<close>: the test \<open>np.all(norm_weights == 0)\<close> is true either way).
\<close>

definition weight_column :: "weight_array \<Rightarrow> nat \<Rightarrow> nat \<Rightarrow> real list option" where
  "weight_column weights c m =
     (case weights of
        [] \<Rightarrow> None
      | row # _ \<Rightarrow>
          if c < length row \<and> m < length (row ! c) then Some (map (\<lambda>r. r ! c ! m) weights)
          else None)"

definition eigen_mode :: "eigen_probes \<Rightarrow> nat \<Rightarrow> nat \<Rightarrow> image option" where
  "eigen_mode eigen_probe c m =
     (if 1 \<le> c \<and> c - 1 < length eigen_probe \<and> m < length (eigen_probe ! (c - 1))
      then Some (eigen_probe ! (c - 1) ! m) else None)"

definition norm_weights :: "weight_array list \<Rightarrow> nat \<Rightarrow> nat \<Rightarrow> real list" where
  "norm_weights weights c m =
     concat (map (\<lambda>w. case weight_column w c m of
                         None \<Rightarrow> []
                       | Some col \<Rightarrow> [(norm2_real col)\<^sup>2]) weights)"

fun sequence_e :: "(error + 'a) list \<Rightarrow> error + 'a list" where
  "sequence_e [] = Inr []"
| "sequence_e (x # xs) = ebind x (\<lambda>y. ebind (sequence_e xs) (\<lambda>ys. Inr (y # ys)))"

text \<open>
  \<open>_get_update\<close>: the update of the selected eigen mode from the residuals of one worker.
  The test is on all entries of \<open>norm_weights\<close>; when it fails the projection is divided by
  \<open>norm_weights\<close> whatever its entries are. \<open>get_update_lead\<close> is the part of the result for
  one leading index: \<open>None\<close> when the eigen slice is empty (the arrays computed from it have
  no entries); where the entry of \<open>norm_weights\<close> is zero the weights of the column are all
  zero, every entry of \<open>proj\<close> is a number divided by zero, and no entry of the result is
  finite. After the test has failed every leading index of a rectangular array has a
  weight column. The pixel shape of an eigen probe without the selected mode is not
  represented, and is taken to agree with that of \<open>R\<close>.
\<close>

definition get_update_lead ::
  "nat \<Rightarrow> nat \<Rightarrow> residual \<Rightarrow> eigen_probes \<Rightarrow> weight_array \<Rightarrow> error + fimage option" where
  "get_update_lead c m R eigen_probe weights =
     (case weight_column weights c m of
        None \<Rightarrow> Inl BroadcastCase
      | Some col \<Rightarrow>
          (case eigen_mode eigen_probe c m of
             None \<Rightarrow> Inr None
           | Some e \<Rightarrow>
               if length R = length col \<and> list_all (\<lambda>row. length row = length e) R
               then
                 let nw = (norm2_real col)\<^sup>2 in
                 if nw = 0 then Inr (Some (map (\<lambda>_. None) e))
                 else
                   let proj = map2 (\<lambda>row w. map2 (\<lambda>r ev. (Re (cnj r * ev) + w) / nw) row e) R col
                   in Inr (Some (map (\<lambda>q. Some (mean_c (map2 (\<lambda>row pr. row ! q * of_real (mean_r pr))
                                                               R proj)))
                                     [0..<length e]))
               else Inl BroadcastCase))"

definition get_update ::
  "nat \<Rightarrow> nat \<Rightarrow> residual list \<Rightarrow> eigen_probes list \<Rightarrow> weight_array list \<Rightarrow>
   error + fimage option list" where
  "get_update c m R eigen_probe weights =
     (if list_all (\<lambda>x. x = 0) (norm_weights weights c m) then Inl WeightsAllZero
      else if length R = length weights \<and> length eigen_probe = length weights
      then sequence_e (map (\<lambda>(R, eigen_probe, weights). get_update_lead c m R eigen_probe weights)
                           (zip R (zip eigen_probe weights)))
      else Inl BroadcastCase)"

text \<open>
  Modelled from the spec: the communicator is not among the sources at hand. \<open>pool.map\<close>
  applies a function to the data of every worker, in the order of the workers, and the
  first failure aborts the call; \<open>pool.bcast\<close> replicates a value to all workers;
  \<open>pool.reduce_mean\<close> averages the workers' values entry by entry (the arrays are
  concatenated, so their shapes must agree), and the mean of values of which one is not
  finite is not finite; the cross-node \<open>Allreduce_mean\<close> is a parameter.
\<close>

record comm =
  num_workers :: nat
  use_mpi :: bool
  Allreduce_mean_update :: "fimage option list list \<Rightarrow> error + fimage option list"
  Allreduce_mean_d :: "real option list list \<Rightarrow> error + real option list"

definition pool_map :: "comm \<Rightarrow> ('a \<Rightarrow> error + 'b) \<Rightarrow> 'a list \<Rightarrow> error + 'b list" where
  "pool_map cm f args = sequence_e (map f (take (num_workers cm) args))"

definition pool_bcast :: "comm \<Rightarrow> 'a \<Rightarrow> 'a list" where
  "pool_bcast cm x = replicate (num_workers cm) x"

definition reduce_mean_update_lead :: "fimage option list \<Rightarrow> error + fimage option" where
  "reduce_mean_update_lead us =
     (if list_all (\<lambda>u. u = None) us then Inr None
      else
        (case those us of
           None \<Rightarrow> Inl ValueError
         | Some vs \<Rightarrow>
             if list_all (\<lambda>v. length v = length (hd vs)) vs
             then Inr (Some (map (\<lambda>q. map_option mean_c (those (map (\<lambda>v. v ! q) vs)))
                                 [0..<length (hd vs)]))
             else Inl ValueError))"

definition reduce_mean_update :: "fimage option list list \<Rightarrow> error + fimage option list" where
  "reduce_mean_update us =
     (case us of
        [] \<Rightarrow> Inl ValueError
      | u0 # _ \<Rightarrow>
          if list_all (\<lambda>u. length u = length u0) us
          then sequence_e (map (\<lambda>l. reduce_mean_update_lead (map (\<lambda>u. u ! l) us))
                               [0..<length u0])
          else Inl ValueError)"

definition reduce_mean_d :: "real option list list \<Rightarrow> error + real option list" where
  "reduce_mean_d ds =
     (case ds of
        [] \<Rightarrow> Inl ValueError
      | d0 # _ \<Rightarrow>
          if list_all (\<lambda>d. length d = length d0) ds
          then Inr (map (\<lambda>l. map_option mean_r (those (map (\<lambda>d. d ! l) ds))) [0..<length d0])
          else Inl ValueError)"

text \<open>
  \<open>_get_d\<close>. \<open>new_mode_lead\<close> is the selected eigen mode of one leading index after the two
  statements that update it in place: it is moved by \<open>\<beta> * update / mnorm(update)\<close> and
  divided by its \<open>mnorm\<close>. With an update that is not finite, or with an \<open>mnorm\<close> that is
  zero, no entry of the mode is finite afterwards; with an empty eigen slice nothing is
  written. The assertion is on the whole array. \<open>get_d_lead\<close> is the rest of the function for
  one leading index: \<open>n\<close> and \<open>d\<close> hold one value per position, \<open>None\<close> (\<open>nan\<close>) for images
  without pixels, and have no entries for an empty eigen slice.
\<close>

definition new_mode_lead ::
  "nat \<Rightarrow> nat \<Rightarrow> real \<Rightarrow> eigen_probes \<Rightarrow> fimage option \<Rightarrow> error + fimage option" where
  "new_mode_lead c m \<beta> eigen_probe update =
     (case (eigen_mode eigen_probe c m, update) of
        (None, None) \<Rightarrow> Inr None
      | (None, Some u) \<Rightarrow> Inl BroadcastCase
      | (Some e, None) \<Rightarrow> Inl BroadcastCase
      | (Some e, Some u) \<Rightarrow>
          if length u \<noteq> length e then Inl BroadcastCase
          else
            (case those u of
               None \<Rightarrow> Inr (Some (map (\<lambda>_. None) e))
             | Some u \<Rightarrow>
                 if mnorm u = 0 then Inr (Some (map (\<lambda>_. None) e))
                 else
                   let e1 = map2 (\<lambda>ev uv. ev + of_real \<beta> * uv / of_real (mnorm u)) e u in
                   if mnorm e1 = 0 then Inr (Some (map (\<lambda>_. None) e))
                   else Inr (Some (map (\<lambda>ev. Some (ev / of_real (mnorm e1))) e1))))"

definition get_d_lead ::
  "nat \<Rightarrow> nat \<Rightarrow> residual \<Rightarrow> residual \<Rightarrow> eigen_probes \<Rightarrow> fimage option \<Rightarrow>
   error + eigen_probes \<times> real option list \<times> real option list \<times> real option" where
  "get_d_lead c m patches diff eigen_probe mode =
     (case mode of
        None \<Rightarrow> Inr (eigen_probe, [], [], None)
      | Some e \<Rightarrow>
          (case those e of
             None \<Rightarrow> Inl AssertionError
           | Some e \<Rightarrow>
               let eigen_probe = eigen_probe[c - 1 := (eigen_probe ! (c - 1))[m := e]] in
               if length diff \<noteq> length patches \<or>
                  \<not> list_all (\<lambda>row. length row = length e) patches \<or>
                  \<not> list_all (\<lambda>row. length row = length e) diff
               then Inl BroadcastCase
               else
                 let phi = map (\<lambda>row. map2 (\<lambda>pv ev. pv * ev) row e) patches;
                     n = map2 (\<lambda>drow prow.
                                if e = [] then None
                                else Some (mean_r (map2 (\<lambda>dv pv. Re (dv * cnj pv)) drow prow)))
                              diff phi;
                     d = map (\<lambda>prow.
                                if e = [] then None
                                else Some (mean_r (map (\<lambda>pv. (cmod pv)\<^sup>2) prow)))
                             phi;
                     d_mean = (case those d of
                                 None \<Rightarrow> None
                               | Some ds \<Rightarrow> if ds = [] then None else Some (mean_r ds))
                 in Inr (eigen_probe, n, d, d_mean)))"

definition get_d ::
  "nat \<Rightarrow> nat \<Rightarrow> real \<Rightarrow> residual list \<Rightarrow> residual list \<Rightarrow> eigen_probes list \<Rightarrow>
   fimage option list \<Rightarrow>
   error + eigen_probes list \<times> real option list list \<times> real option list list \<times> real option list"
  where
  "get_d c m \<beta> patches diff eigen_probe update =
     (if length update = length eigen_probe \<and> length patches = length eigen_probe \<and>
         length diff = length eigen_probe
      then
        ebind (sequence_e (map (\<lambda>(eigen_probe, update). new_mode_lead c m \<beta> eigen_probe update)
                               (zip eigen_probe update))) (\<lambda>modes.
        py_assert (list_all (\<lambda>mode. case mode of
                                      None \<Rightarrow> True
                                    | Some e \<Rightarrow> list_all (\<lambda>z. z \<noteq> None) e) modes) (
        ebind (sequence_e (map (\<lambda>(patches, diff, eigen_probe, mode).
                                  get_d_lead c m patches diff eigen_probe mode)
                               (zip patches (zip diff (zip eigen_probe modes))))) (\<lambda>results.
        Inr (map fst results, map (fst \<circ> snd) results, map (fst \<circ> snd \<circ> snd) results,
             map (snd \<circ> snd \<circ> snd) results))))
      else Inl BroadcastCase)"

text \<open>
  \<open>_get_weights_mean\<close>. \<open>weight_update_lead\<close> is \<open>(n / d).reshape(...)\<close> for one leading index,
  after \<open>d += 0.1 * d_mean\<close>: it needs one entry per position of the weights (\<open>ValueError\<close>
  otherwise), and an entry is not finite after a \<open>nan\<close> or a division by zero. The assertion
  is on the whole array; then the update is added to the selected weight column. Nothing
  else is done to the weights.
\<close>

definition weight_update_lead ::
  "nat \<Rightarrow> nat \<Rightarrow> real option list \<Rightarrow> real option list \<Rightarrow> real option \<Rightarrow> weight_array \<Rightarrow>
   error + real option list" where
  "weight_update_lead c m n d d_mean weights =
     (case weight_column weights c m of
        None \<Rightarrow> if n = [] \<and> d = [] then Inr [] else Inl ValueError
      | Some col \<Rightarrow>
          if length n \<noteq> length col \<or> length d \<noteq> length col then Inl ValueError
          else Inr (map2 (\<lambda>nv dv.
                            case (nv, dv, d_mean) of
                              (Some nv, Some dv, Some dm) \<Rightarrow>
                                if dv + 0.1 * dm = 0 then None else Some (nv / (dv + 0.1 * dm))
                            | _ \<Rightarrow> None) n d))"

definition get_weights_mean ::
  "nat \<Rightarrow> nat \<Rightarrow> real option list list \<Rightarrow> real option list list \<Rightarrow> real option list \<Rightarrow>
   weight_array list \<Rightarrow> error + weight_array list" where
  "get_weights_mean c m n d d_mean weights =
     (if length n = length weights \<and> length d = length weights \<and>
         length d_mean = length weights
      then
        ebind (sequence_e (map (\<lambda>(n, d, d_mean, weights). weight_update_lead c m n d d_mean weights)
                               (zip n (zip d (zip d_mean weights))))) (\<lambda>weight_update.
        py_assert (list_all (list_all (\<lambda>x. x \<noteq> None)) weight_update) (
        Inr (map2 (\<lambda>weights wu.
                     if weight_column weights c m = None then weights
                     else map2 (\<lambda>row x. case x of
                                           None \<Rightarrow> row
                                         | Some v \<Rightarrow> row[c := (row ! c)[m := row ! c ! m + v]])
                               weights wu)
                  weights weight_update)))
      else Inl BroadcastCase)"

text \<open>
  The assertions at the head of \<open>update_eigen_probe\<close> read the arrays of the first worker
  (\<open>IndexError\<close> without one). Those on the axes of length one hold by the types of the
  model; the others compare the leading axes of \<open>R[0]\<close>, \<open>eigen_probe[0]\<close> and \<open>weights[0]\<close>,
  the number of positions of \<open>weights[0]\<close> and \<open>R[0]\<close>, and the pixel shapes of \<open>R[0]\<close> and
  \<open>eigen_probe[0]\<close>.
\<close>

definition head_assertions ::
  "residual list list \<Rightarrow> eigen_probes list list \<Rightarrow> weight_array list list \<Rightarrow> error + unit" where
  "head_assertions R eigen_probe weights =
     (case (R, eigen_probe, weights) of
        (R0 # _, e0 # _, w0 # _) \<Rightarrow>
          py_assert (length R0 = length e0 \<and> length e0 = length w0) (
          py_assert (list_all2 (\<lambda>w r. length w = length r) w0 R0) (
          py_assert (list_all2 (\<lambda>r e. list_all (\<lambda>row. list_all (\<lambda>em. list_all (\<lambda>s. length row = length s) em) e) r)
                               R0 e0) (
          Inr ())))
      | _ \<Rightarrow> Inl IndexError)"

definition update_eigen_probe ::
  "comm \<Rightarrow> residual list list \<Rightarrow> eigen_probes list list \<Rightarrow> weight_array list list \<Rightarrow>
   residual list list \<Rightarrow> residual list list \<Rightarrow> real \<Rightarrow> nat \<Rightarrow> nat \<Rightarrow>
   error + eigen_probes list list \<times> weight_array list list" where
  "update_eigen_probe cm R eigen_probe weights patches diff \<beta> c m =
     ebind (head_assertions R eigen_probe weights) (\<lambda>_.
     ebind (pool_map cm (\<lambda>(R, eigen_probe, weights). get_update c m R eigen_probe weights)
              (zip R (zip eigen_probe weights))) (\<lambda>update.
     ebind (if use_mpi cm then Allreduce_mean_update cm update
            else reduce_mean_update update) (\<lambda>update0.
     let update = pool_bcast cm update0 in
     ebind (pool_map cm (\<lambda>(patches, diff, eigen_probe, update).
                          get_d c m \<beta> patches diff eigen_probe update)
              (zip patches (zip diff (zip eigen_probe update)))) (\<lambda>results.
     let eigen_probe = map fst results;
         n = map (fst \<circ> snd) results;
         d = map (fst \<circ> snd \<circ> snd) results;
         d_mean = map (snd \<circ> snd \<circ> snd) results
     in
     ebind (if use_mpi cm then Allreduce_mean_d cm d_mean else reduce_mean_d d_mean) (\<lambda>d_mean0.
     let d_mean = pool_bcast cm d_mean0 in
     ebind (pool_map cm (\<lambda>(n, d, d_mean, weights). get_weights_mean c m n d d_mean weights)
              (zip n (zip d (zip d_mean weights)))) (\<lambda>weights.
     Inr (eigen_probe, weights)))))))"

text \<open>
  \<open>init_varying_probe\<close>, at one leading index, for a scan of \<open>POSI\<close> positions and \<open>SHARED\<close>
  shared probes. The random arrays are parameters: \<open>rnd\<close> stands for \<open>np.random.rand(POSI, EIGEN, SHARED)\<close>
  and \<open>rnd_eigen\<close> for \<open>tike.random.numpy_complex(...)\<close>. A normalised eigen mode is \<open>None\<close>
  when its \<open>mnorm\<close> is zero (a division by zero).
\<close>

definition column_mean :: "weight_array \<Rightarrow> nat \<Rightarrow> nat \<Rightarrow> real" where
  "column_mean w e s = mean_r (map (\<lambda>row. row ! e ! s) w)"

definition init_varying_probe ::
  "weight_array \<Rightarrow> eigen_probes \<Rightarrow> nat \<Rightarrow> int \<Rightarrow> int \<Rightarrow>
   error + (image option list list) option \<times> weight_array option" where
  "init_varying_probe rnd rnd_eigen shared num_eigen_probes probes_with_modes =
     (let probes_with_modes = max probes_with_modes 0 in
      if probes_with_modes > int shared then Inl ValueError
      else if num_eigen_probes < 1 then Inr (None, None)
      else
        let weights = map (map (map (\<lambda>r. r / 10 ^ 6))) rnd;
            weights = map (\<lambda>row. map (\<lambda>e. map (\<lambda>s. row ! e ! s - column_mean weights e s)
                                                  [0..<length (row ! e)])
                                        [0..<length row]) weights;
            weights = map (\<lambda>row. row[0 := map (\<lambda>_. 1) (row ! 0)]) weights;
            weights = map (\<lambda>row. take 1 row @
                                   map (\<lambda>e. take (nat probes_with_modes) e @
                                             map (\<lambda>_. 0) (drop (nat probes_with_modes) e))
                                       (drop 1 row)) weights
        in
          if num_eigen_probes = 1 then Inr (None, Some weights)
          else
            Inr (Some (map (map (\<lambda>im. if im \<noteq> [] \<and> mnorm im = 0 then None
                                       else Some (map (\<lambda>z. z / of_real (mnorm im)) im)))
                           rnd_eigen),
                 Some weights))"

subsection \<open>The update by index\<close>

text \<open>
  The quantities of the update written out by index, to state what a call returns: the
  selected eigen mode and weight column of one leading index, the accumulated squared
  magnitude of the column, the update of the mode from the residuals of one worker, the
  mean of these updates over the workers, the mode moved by the relaxed update and the mode
  divided by its \<open>mnorm\<close>, the overlap of a difference with a patch times the mode, and the
  energy of a patch times the mode.
\<close>

definition selected_mode :: "eigen_probes \<Rightarrow> nat \<Rightarrow> nat \<Rightarrow> image" where
  "selected_mode E c m = E ! (c - 1) ! m"

definition selected_column :: "weight_array \<Rightarrow> nat \<Rightarrow> nat \<Rightarrow> real list" where
  "selected_column W c m = map (\<lambda>row. row ! c ! m) W"

definition sq_norm :: "real list \<Rightarrow> real" where
  "sq_norm col = (\<Sum>p<length col. (col ! p)\<^sup>2)"

definition local_update :: "image \<Rightarrow> residual \<Rightarrow> real list \<Rightarrow> image" where
  "local_update e R col =
     map (\<lambda>q. (\<Sum>p<length col.
                  R ! p ! q *
                  of_real ((\<Sum>k<length e. (Re (cnj (R ! p ! k) * e ! k) + col ! p) / sq_norm col) /
                           real (length e))) /
              of_nat (length col))
         [0..<length e]"

definition combined_update ::
  "nat \<Rightarrow> nat \<Rightarrow> residual list list \<Rightarrow> eigen_probes list list \<Rightarrow> weight_array list list \<Rightarrow>
   nat \<Rightarrow> image" where
  "combined_update c m R E W l =
     map (\<lambda>q. (\<Sum>w<length W. local_update (selected_mode (E ! w ! l) c m) (R ! w ! l)
                                (selected_column (W ! w ! l) c m) ! q) /
              of_nat (length W))
         [0..<length (selected_mode (E ! 0 ! l) c m)]"

definition relaxed_mode :: "real \<Rightarrow> image \<Rightarrow> image \<Rightarrow> image" where
  "relaxed_mode \<beta> e u = map (\<lambda>q. e ! q + of_real \<beta> * u ! q / of_real (mnorm u)) [0..<length e]"

definition unit_mode :: "image \<Rightarrow> image" where
  "unit_mode e = map (\<lambda>z. z / of_real (mnorm e)) e"

definition new_mode ::
  "nat \<Rightarrow> nat \<Rightarrow> real \<Rightarrow> residual list list \<Rightarrow> eigen_probes list list \<Rightarrow> weight_array list list \<Rightarrow>
   nat \<Rightarrow> nat \<Rightarrow> image" where
  "new_mode c m \<beta> R E W w l =
     unit_mode (relaxed_mode \<beta> (selected_mode (E ! w ! l) c m) (combined_update c m R E W l))"

definition overlap :: "image \<Rightarrow> image \<Rightarrow> image \<Rightarrow> real" where
  "overlap d p e = (\<Sum>q<length e. Re (d ! q * cnj (p ! q * e ! q))) / real (length e)"

definition mode_energy :: "image \<Rightarrow> image \<Rightarrow> real" where
  "mode_energy p e = (\<Sum>q<length e. (cmod (p ! q * e ! q))\<^sup>2) / real (length e)"

definition mean_energy ::
  "nat \<Rightarrow> nat \<Rightarrow> real \<Rightarrow> residual list list \<Rightarrow> eigen_probes list list \<Rightarrow> weight_array list list \<Rightarrow>
   residual list list \<Rightarrow> nat \<Rightarrow> real" where
  "mean_energy c m \<beta> R E W patches l =
     (\<Sum>w<length W. (\<Sum>p<length (W ! w ! l).
                          mode_energy (patches ! w ! l ! p) (new_mode c m \<beta> R E W w l)) /
                      real (length (W ! w ! l))) /
     real (length W)"

definition weight_increment ::
  "nat \<Rightarrow> nat \<Rightarrow> real \<Rightarrow> residual list list \<Rightarrow> eigen_probes list list \<Rightarrow> weight_array list list \<Rightarrow>
   residual list list \<Rightarrow> residual list list \<Rightarrow> nat \<Rightarrow> nat \<Rightarrow> nat \<Rightarrow> real" where
  "weight_increment c m \<beta> R E W patches diff w l p =
     overlap (diff ! w ! l ! p) (patches ! w ! l ! p) (new_mode c m \<beta> R E W w l) /
     (mode_energy (patches ! w ! l ! p) (new_mode c m \<beta> R E W w l) +
      0.1 * mean_energy c m \<beta> R E W patches l)"

definition updated_probe ::
  "nat \<Rightarrow> nat \<Rightarrow> real \<Rightarrow> residual list list \<Rightarrow> eigen_probes list list \<Rightarrow> weight_array list list \<Rightarrow>
   eigen_probes list list" where
  "updated_probe c m \<beta> R E W =
     map (\<lambda>w. map (\<lambda>l. (E ! w ! l)[c - 1 := (E ! w ! l ! (c - 1))[m := new_mode c m \<beta> R E W w l]])
                   [0..<length (E ! w)])
         [0..<length E]"

definition updated_weights ::
  "nat \<Rightarrow> nat \<Rightarrow> real \<Rightarrow> residual list list \<Rightarrow> eigen_probes list list \<Rightarrow> weight_array list list \<Rightarrow>
   residual list list \<Rightarrow> residual list list \<Rightarrow> weight_array list list" where
  "updated_weights c m \<beta> R E W patches diff =
     map (\<lambda>w. map (\<lambda>l. map (\<lambda>p. (W ! w ! l ! p)
                                   [c := (W ! w ! l ! p ! c)
                                      [m := W ! w ! l ! p ! c ! m +
                                            weight_increment c m \<beta> R E W patches diff w l p]])
                             [0..<length (W ! w ! l)])
                   [0..<length (W ! w)])
         [0..<length W]"

text \<open>
  The shapes of a call as the docstring gives them, for one leading index and for one
  worker with \<open>L\<close> leading indices, \<open>P\<close> positions and \<open>Q\<close> pixels: the selected mode and
  column exist.
\<close>

definition regular_lead ::
  "nat \<Rightarrow> nat \<Rightarrow> nat \<Rightarrow> nat \<Rightarrow> residual \<Rightarrow> eigen_probes \<Rightarrow> weight_array \<Rightarrow> residual \<Rightarrow> residual \<Rightarrow>
   bool" where
  "regular_lead c m P Q R E W patches diff \<longleftrightarrow>
     1 \<le> c \<and> c - 1 < length E \<and> m < length (E ! (c - 1)) \<and>
     (\<forall>em\<in>set E. \<forall>s\<in>set em. length s = Q) \<and>
     length W = P \<and> (\<forall>row\<in>set W. c < length row \<and> m < length (row ! c)) \<and>
     length R = P \<and> (\<forall>row\<in>set R. length row = Q) \<and>
     length patches = P \<and> (\<forall>row\<in>set patches. length row = Q) \<and>
     length diff = P \<and> (\<forall>row\<in>set diff. length row = Q)"

definition regular_worker ::
  "nat \<Rightarrow> nat \<Rightarrow> nat \<Rightarrow> nat \<Rightarrow> nat \<Rightarrow> residual list \<Rightarrow> eigen_probes list \<Rightarrow> weight_array list \<Rightarrow>
   residual list \<Rightarrow> residual list \<Rightarrow> bool" where
  "regular_worker c m L P Q R E W patches diff \<longleftrightarrow>
     length R = L \<and> length E = L \<and> length W = L \<and> length patches = L \<and> length diff = L \<and>
     (\<forall>l<L. regular_lead c m P Q (R ! l) (E ! l) (W ! l) (patches ! l) (diff ! l))"

section \<open>Properties of the noise-model costs\<close>

lemma those_map_Some: "those (map Some ys) = Some ys"
  by (induction ys) simp_all

lemma those_append:
  "those (xs @ ys) = (case those xs of None \<Rightarrow> None | Some a \<Rightarrow> map_option ((@) a) (those ys))"
proof (induction xs)
  case Nil
  show ?case by (cases "those ys") simp_all
next
  case (Cons x xs)
  then show ?case by (cases x; cases "those xs"; cases "those ys") simp_all
qed

lemma those_concat_replicate:
  "those (concat (replicate (Suc k) xs)) =
   map_option (\<lambda>ys. concat (replicate (Suc k) ys)) (those xs)"
proof (induction k)
  case 0
  show ?case by (cases "those xs") (simp_all add: those_append)
next
  case (Suc k)
  have "those (concat (replicate (Suc (Suc k)) xs)) = those (xs @ concat (replicate (Suc k) xs))"
    by simp
  also have "\<dots> = map_option (\<lambda>ys. concat (replicate (Suc (Suc k)) ys)) (those xs)"
    unfolding those_append Suc by (cases "those xs") simp_all
  finally show ?case .
qed

lemma sum_list_concat_replicate:
  "sum_list (concat (replicate k (ys::real list))) = real k * sum_list ys"
  by (induction k) (simp_all add: algebra_simps)

lemma length_concat_replicate: "length (concat (replicate k ys)) = k * length ys"
  by (induction k) simp_all

lemma mean_scale: "k \<noteq> 0 \<Longrightarrow> real k * s / real (k * n) = s / real n"
  by simp

lemma mean_arr_concat_replicate:
  assumes "1 \<le> k"
  shows "mean_arr (concat (replicate k xs)) = mean_arr xs"
proof -
  obtain j where k: "k = Suc j" using assms by (cases k) auto
  show ?thesis
  proof (cases "those xs")
    case None
    then show ?thesis unfolding k mean_arr_def those_concat_replicate by simp
  next
    case (Some ys)
    have e: "concat (replicate (Suc j) ys) = [] \<longleftrightarrow> ys = []" by auto
    show ?thesis
    proof (cases "ys = []")
      case True
      then show ?thesis unfolding k mean_arr_def those_concat_replicate Some by simp
    next
      case False
      then have "concat (replicate (Suc j) ys) \<noteq> []" using e by blast
      moreover have "real (Suc j) * sum_list ys / real (Suc j * length ys) =
          sum_list ys / real (length ys)"
        by (rule mean_scale) simp
      ultimately show ?thesis using False unfolding k mean_arr_def those_concat_replicate Some
        by (simp add: sum_list_concat_replicate length_concat_replicate
              del: replicate.simps concat.simps of_nat_Suc of_nat_mult)
    qed
  qed
qed

lemma zip_concat_replicate:
  "length xs = length ys \<Longrightarrow>
   zip (concat (replicate k xs)) (concat (replicate k ys)) = concat (replicate k (zip xs ys))"
  by (induction k) simp_all

lemma map_concat_replicate: "map f (concat (replicate k xs)) = concat (replicate k (map f xs))"
  by (induction k) simp_all

lemma map2_concat_replicate:
  "length xs = length ys \<Longrightarrow>
   map2 f (concat (replicate k xs)) (concat (replicate k ys)) =
   concat (replicate k (map2 f xs ys))"
  by (simp add: zip_concat_replicate map_concat_replicate)

lemma map2_same: "map2 f xs xs = map (\<lambda>x. f x x) xs"
  by (induction xs) simp_all

lemma gaussian_fuse_truth: "0 \<le> d \<Longrightarrow> gaussian_fuse d d = Some 0"
  by (simp add: gaussian_fuse_def fsqrt_def)

lemma poisson_fuse_truth: "0 \<le> d \<Longrightarrow> poisson_fuse d d = Some (d * (1 - ln (d + eps9)))"
  by (simp add: poisson_fuse_def flog_def eps9_def algebra_simps)

lemma gaussian_truth:
  assumes "\<forall>d\<in>set data. 0 \<le> d" "data \<noteq> []"
  shows "gaussian data data = Some 0"
proof -
  have "map (\<lambda>x. gaussian_fuse x x) data = map Some (map (\<lambda>_. 0) data)"
    using assms(1) by (simp add: gaussian_fuse_truth)
  then show ?thesis using assms(2)
    by (simp add: gaussian_def map2_same mean_arr_def those_map_Some del: map_map)
qed

lemma poisson_truth:
  assumes "\<forall>d\<in>set data. 0 \<le> d" "data \<noteq> []"
  shows "poisson data data =
         Some (sum_list (map (\<lambda>d. d * (1 - ln (d + eps9))) data) / real (length data))"
proof -
  have "map (\<lambda>x. poisson_fuse x x) data = map Some (map (\<lambda>d. d * (1 - ln (d + eps9))) data)"
    using assms(1) by (simp add: poisson_fuse_truth)
  then show ?thesis using assms(2)
    by (simp add: poisson_def map2_same mean_arr_def those_map_Some del: map_map)
qed

text \<open>
  Claim C1, as stated: for every nonnegative array \<open>data\<close>, \<open>gaussian(data, data)\<close> and
  \<open>poisson(data, data)\<close> are both zero. The Poisson half fails: at the one-entry array
  \<open>[1]\<close> the Poisson objective is \<open>1 - log(1 + 1e-9)\<close>, which is larger than \<open>0.9\<close>.
\<close>

theorem poisson_at_truth_not_zero:
  "poisson [1] [1] = Some (1 - ln (1 + eps9)) \<and> 9 / 10 < 1 - ln (1 + eps9)"
proof -
  have "ln (1 + eps9) \<le> eps9"
    by (rule ln_add_one_self_le_self) (simp add: eps9_def)
  moreover have "eps9 < 1 / 10"
    by (simp add: eps9_def)
  moreover have "poisson [1] [1] = Some (1 - ln (1 + eps9))"
    by (simp add: poisson_def mean_arr_def poisson_fuse_def flog_def eps9_def)
  ultimately show ?thesis by simp
qed

text \<open>
  Claim C1, amended: for every nonnegative array \<open>data\<close> with at least one entry,
  \<open>gaussian(data, data)\<close> is exactly zero, and \<open>poisson(data, data)\<close> is the mean over the
  entries \<open>d\<close> of \<open>d * (1 - log(d + 1e-9))\<close>, which is zero only for particular data.
\<close>

theorem objectives_at_truth:
  assumes "\<forall>d\<in>set data. 0 \<le> d" and "data \<noteq> []"
  shows "gaussian data data = Some 0 \<and>
         poisson data data =
           Some (sum_list (map (\<lambda>d. d * (1 - ln (d + eps9))) data) / real (length data))"
  using gaussian_truth [OF assms] poisson_truth [OF assms] by simp

theorem objectives_at_truth_witness:
  "gaussian [1, 4] [1, 4] = Some 0 \<and>
   poisson [1, 4] [1, 4] =
     Some (sum_list (map (\<lambda>d. d * (1 - ln (d + eps9))) [1, 4]) / real (length [1, 4 :: real]))"
  using objectives_at_truth [of "[1, 4]"] by simp

lemma norm2_real_sq: "(norm2_real ds)\<^sup>2 = sum_list (map (\<lambda>x. x\<^sup>2) ds)"
proof -
  have "0 \<le> sum_list (map (\<lambda>x. \<bar>x\<bar>\<^sup>2) ds)"
    by (rule sum_list_nonneg) auto
  then show ?thesis by (simp add: norm2_real_def)
qed

lemma gaussian_cost_copies:
  assumes "length data = length farplane" "1 \<le> k"
  shows "gaussian_cost (concat (replicate k data)) (concat (replicate k farplane)) =
         map_option (\<lambda>c. real k * c) (gaussian_cost data farplane)"
proof -
  obtain j where k: "k = Suc j" using assms(2) by (cases k) auto
  have l: "length farplane = length data" using assms(1) by simp
  show ?thesis
    unfolding gaussian_cost_def map2_concat_replicate [OF l] k those_concat_replicate
    by (cases "those (map2 (\<lambda>f d. map_option (\<lambda>s. norm2 f - s) (fsqrt d)) farplane data)")
       (simp_all add: norm2_real_sq map_concat_replicate sum_list_concat_replicate
          del: replicate.simps concat.simps of_nat_Suc)
qed

lemma poisson_cost_copies:
  assumes "length data = length farplane" "1 \<le> k"
  shows "poisson_cost (concat (replicate k data)) (concat (replicate k farplane)) =
         map_option (\<lambda>c. real k * c) (poisson_cost data farplane)"
proof -
  obtain j where k: "k = Suc j" using assms(2) by (cases k) auto
  have l: "length farplane = length data" using assms(1) by simp
  show ?thesis
    unfolding poisson_cost_def map2_concat_replicate [OF l] k those_concat_replicate
    by (cases "those (map2 (\<lambda>f d. let intensity = (norm2 f)\<^sup>2 in
                          map_option (\<lambda>l. intensity - d * l) (flog (intensity + eps32)))
                   farplane data)")
       (simp_all add: sum_list_concat_replicate
          del: replicate.simps concat.simps of_nat_Suc)
qed

lemma gaussian_copies:
  assumes "length data = length intensity" "1 \<le> k"
  shows "gaussian (concat (replicate k data)) (concat (replicate k intensity)) =
         gaussian data intensity"
  unfolding gaussian_def map2_concat_replicate [OF assms(1)]
  by (rule mean_arr_concat_replicate [OF assms(2)])

lemma poisson_copies:
  assumes "length data = length intensity" "1 \<le> k"
  shows "poisson (concat (replicate k data)) (concat (replicate k intensity)) =
         poisson data intensity"
  unfolding poisson_def map2_concat_replicate [OF assms(1)]
  by (rule mean_arr_concat_replicate [OF assms(2)])

text \<open>
  Claim C2, as stated: every noise-model cost, the costs of the propagation operator
  included, returns the same scalar on a batch of \<open>k\<close> copies as on the batch itself. The
  Gaussian cost of the propagation operator is a squared norm, a sum: on one entry with
  datum \<open>0\<close> and farplane value \<open>1\<close> it is \<open>1\<close>, and on two copies of that batch it is \<open>2\<close>.
\<close>

theorem propagation_cost_not_batch_invariant:
  "gaussian_cost (batch_copies 2 [0]) (batch_copies 2 [[1]]) = Some 2 \<and>
   gaussian_cost [0] [[1]] = Some 1"
  by (simp add: batch_copies_def gaussian_cost_def numeral_2_eq_2 fsqrt_def norm2_def
        norm2_real_def)

text \<open>
  Claim C2, amended: the objectives \<open>gaussian\<close> and \<open>poisson\<close> of the objective module are
  mean-reduced and return the same scalar on a batch of \<open>k \<ge> 1\<close> copies of \<open>data\<close> and
  \<open>intensity\<close> as on the batch itself; the costs \<open>_gaussian_cost\<close> and \<open>_poisson_cost\<close> of the
  propagation operator are sum-reduced and return \<open>k\<close> times the cost of the batch.
\<close>

theorem cost_on_batch_copies:
  assumes "length data = length intensity" and "length data = length farplane" and "1 \<le> k"
  shows "gaussian (batch_copies k data) (batch_copies k intensity) = gaussian data intensity \<and>
         poisson (batch_copies k data) (batch_copies k intensity) = poisson data intensity \<and>
         gaussian_cost (batch_copies k data) (batch_copies k farplane) =
           map_option (\<lambda>c. real k * c) (gaussian_cost data farplane) \<and>
         poisson_cost (batch_copies k data) (batch_copies k farplane) =
           map_option (\<lambda>c. real k * c) (poisson_cost data farplane)"
  unfolding batch_copies_def
  using gaussian_copies [OF assms(1,3)] poisson_copies [OF assms(1,3)]
    gaussian_cost_copies [OF assms(2,3)] poisson_cost_copies [OF assms(2,3)]
  by simp

theorem cost_on_batch_copies_witness:
  "gaussian (batch_copies 3 [1, 4]) (batch_copies 3 [4, 9]) = gaussian [1, 4] [4, 9] \<and>
   poisson (batch_copies 3 [1, 4]) (batch_copies 3 [4, 9]) = poisson [1, 4] [4, 9] \<and>
   gaussian_cost (batch_copies 3 [1, 4]) (batch_copies 3 [[2], [3, 4]]) =
     map_option (\<lambda>c. real 3 * c) (gaussian_cost [1, 4] [[2], [3, 4]]) \<and>
   poisson_cost (batch_copies 3 [1, 4]) (batch_copies 3 [[2], [3, 4]]) =
     map_option (\<lambda>c. real 3 * c) (poisson_cost [1, 4] [[2], [3, 4]])"
  using cost_on_batch_copies [of "[1, 4]" "[4, 9]" "[[2], [3, 4]]" 3] by simp

section \<open>Properties of the patch operator\<close>

lemma from_end_snoc1 [simp]: "from_end (Suc 0) (xs @ [a]) = Inr a"
  by (simp add: from_end_def)

lemma from_end_snoc1_2 [simp]: "from_end (Suc 0) (xs @ [a, b]) = Inr b"
  by (simp add: from_end_def nth_append)

lemma from_end_snoc1_3 [simp]: "from_end (Suc 0) (xs @ [a, b, c]) = Inr c"
  by (simp add: from_end_def nth_append)

lemma from_end_snoc2 [simp]: "from_end 2 (xs @ [a, b]) = Inr a"
  by (simp add: from_end_def nth_append)

lemma from_end_snoc2_3 [simp]: "from_end 2 (xs @ [a, b, c]) = Inr b"
  by (simp add: from_end_def nth_append)

lemma from_end_snoc3 [simp]: "from_end 3 (xs @ [a, b, c]) = Inr a"
  by (simp add: from_end_def nth_append)

lemma lead_snoc2 [simp]: "lead 2 (xs @ [a, b]) = xs"
  by (simp add: lead_def)

lemma lead_snoc3 [simp]: "lead 3 (xs @ [a, b, c]) = xs"
  by (simp add: lead_def)

lemma tail2_snoc [simp]: "tail2 (xs @ [a, b]) = [a, b]"
  by (simp add: tail2_def)

lemma from_end_Inr_2: "from_end 2 s = Inr a \<Longrightarrow> \<exists>xs b. s = xs @ [a, b]"
proof -
  assume a: "from_end 2 s = Inr a"
  then have l: "2 \<le> length s" by (auto simp: from_end_def split: if_splits)
  then obtain xs b where s: "s = xs @ [b]" by (cases s rule: rev_cases) auto
  with l obtain ys c where xs: "xs = ys @ [c]" by (cases xs rule: rev_cases) auto
  from a show ?thesis unfolding s xs by auto
qed

lemma from_end_Inr_3: "from_end 3 s = Inr a \<Longrightarrow> \<exists>xs b c. s = xs @ [a, b, c]"
proof -
  assume a: "from_end 3 s = Inr a"
  then have l: "3 \<le> length s" by (auto simp: from_end_def split: if_splits)
  then obtain xs b where s: "s = xs @ [b]" by (cases s rule: rev_cases) auto
  with l obtain ys c where xs: "xs = ys @ [c]" by (cases xs rule: rev_cases) auto
  with l s obtain zs d where ys: "ys = zs @ [d]" by (cases ys rule: rev_cases) auto
  from a show ?thesis unfolding s xs ys by auto
qed

lemma map_nat_int [simp]: "map (nat \<circ> int) xs = xs"
  by (induction xs) simp_all

lemma list_ex_neg:
  "list_ex (\<lambda>d. d < 0) dims \<longleftrightarrow> \<not> (\<forall>d\<in>set dims. (0::int) \<le> d)"
  by (simp add: list_ex_iff not_le)

lemma zeros_Inr_iff:
  "zeros dims = Inr r \<longleftrightarrow>
     (\<forall>d\<in>set dims. 0 \<le> d) \<and>
     r = \<lparr>shape = map nat dims, dtype = Csingle,
          elems = replicate (prod_list (map nat dims)) 0\<rparr>"
  unfolding zeros_def list_ex_neg by auto

lemma ebind_Inr [simp]: "ebind (Inr x) f = f x"
  by (simp add: ebind_def)

lemma ebind_Inl [simp]: "ebind (Inl e) f = Inl e"
  by (simp add: ebind_def)

lemma ebind_Inr_iff: "ebind m f = Inr r \<longleftrightarrow> (\<exists>x. m = Inr x \<and> f x = Inr r)"
  by (cases m) simp_all

lemma py_assert_Inr_iff: "py_assert b k = Inr r \<longleftrightarrow> b \<and> k = Inr r"
  by (simp add: py_assert_def)

lemma py_assert_fails_iff:
  "py_assert b k = Inl AssertionError \<longleftrightarrow> \<not> b \<or> k = Inl AssertionError"
  by (simp add: py_assert_def)

lemma Patch_fwd_shape:
  assumes "shape positions = ld @ [N, c]" "patch_width \<noteq> 0"
    "Patch_fwd fwd_patch max_threads images positions None patch_width nrepeat = Inr r"
  shows "shape r = ld @ [nat (int N * nrepeat), nat patch_width, nat patch_width] \<and>
         dtype r = Csingle"
  using assms
  by (auto simp: Patch_fwd_def ebind_def py_assert_def Let_def zeros_Inr_iff
      split: sum.splits if_splits)

lemma Patch_fwd_returns:
  assumes "shape positions = ld @ [N, 2]" "0 < patch_width" "0 \<le> nrepeat"
    "lead 2 (shape images) = ld" "dtype images = Csingle" "dtype positions = Single"
  shows "Patch_fwd fwd_patch max_threads images positions None patch_width nrepeat =
      ebind (fwd_patch
              \<lparr>grids = (int N, int (prod_list ld), patch_width),
               blocks = min (next_power_two patch_width) max_threads,
               arg_images = elems images,
               arg_patches =
                 replicate (prod_list ld * nat (int N * nrepeat) * nat patch_width *
                            nat patch_width) 0,
               arg_positions = elems positions,
               arg_scalars = [int (prod_list ld)] @ map int (tail2 (shape images)) @
                             [int N, nrepeat, patch_width, patch_width]\<rparr>)
        (\<lambda>out. Inr \<lparr>shape = ld @ [nat (int N * nrepeat), nat patch_width, nat patch_width],
                        dtype = Csingle, elems = out\<rparr>)"
proof -
  have z: "zeros (map int ld @ [int N * nrepeat, patch_width, patch_width]) =
      Inr \<lparr>shape = ld @ [nat (int N * nrepeat), nat patch_width, nat patch_width],
           dtype = Csingle,
           elems = replicate (prod_list ld * nat (int N * nrepeat) * nat patch_width *
                              nat patch_width) 0\<rparr>"
  proof -
    have "0 \<le> int N * nrepeat" using assms(3) by simp
    then show ?thesis using assms(2) by (simp add: zeros_def list_ex_neg mult.assoc)
  qed
  show ?thesis
    using assms
    by (simp add: Patch_fwd_def z ebind_def py_assert_def Let_def split: sum.splits)
qed

text \<open>
  Claim C3, as stated: whenever the buffer \<open>patches\<close> is not supplied, \<open>Patch.fwd\<close> allocates
  and returns one, also when \<open>patch_width\<close> keeps its default \<open>0\<close>. With \<open>patches = None\<close> and
  \<open>patch_width = 0\<close> the first statement reads \<open>patches.shape\<close> and raises \<open>AttributeError\<close>:
  nothing is allocated.
\<close>

theorem Patch_fwd_default_width_raises:
  "Patch_fwd (\<lambda>l. Inr (arg_patches l)) 1024
     \<lparr>shape = [4, 4], dtype = Csingle, elems = replicate 16 0\<rparr>
     \<lparr>shape = [1, 2], dtype = Single, elems = [0, 0]\<rparr> None 0 1 = Inl AttributeError"
  by (simp add: Patch_fwd_def)

text \<open>
  Claim C3, amended: for every call to \<open>Patch.fwd\<close> without a buffer and with a nonzero
  \<open>patch_width\<close>, where \<open>positions\<close> has shape \<open>(*ld, N, c)\<close>: a buffer that the call returns
  is complex64 of shape \<open>(*ld, N * nrepeat, patch_width, patch_width)\<close>; and when
  \<open>patch_width > 0\<close>, \<open>nrepeat \<ge> 0\<close>, \<open>c = 2\<close>, the leading dimensions of \<open>images\<close> are \<open>ld\<close>
  and the dtypes are complex64 and float32, the call returns that buffer, filled by the
  kernel, unless the kernel launch itself fails.
\<close>

theorem Patch_fwd_allocates:
  assumes "shape positions = ld @ [N, c]" and "patch_width \<noteq> 0"
  shows "(\<forall>r. Patch_fwd fwd_patch max_threads images positions None patch_width nrepeat = Inr r
            \<longrightarrow> shape r = ld @ [nat (int N * nrepeat), nat patch_width, nat patch_width] \<and>
                dtype r = Csingle) \<and>
         (0 < patch_width \<and> 0 \<le> nrepeat \<and> c = 2 \<and> lead 2 (shape images) = ld \<and>
          dtype images = Csingle \<and> dtype positions = Single \<longrightarrow>
          Patch_fwd fwd_patch max_threads images positions None patch_width nrepeat =
            ebind (fwd_patch
                    \<lparr>grids = (int N, int (prod_list ld), patch_width),
                     blocks = min (next_power_two patch_width) max_threads,
                     arg_images = elems images,
                     arg_patches =
                       replicate (prod_list ld * nat (int N * nrepeat) * nat patch_width *
                                  nat patch_width) 0,
                     arg_positions = elems positions,
                     arg_scalars = [int (prod_list ld)] @ map int (tail2 (shape images)) @
                                   [int N, nrepeat, patch_width, patch_width]\<rparr>)
              (\<lambda>out. Inr \<lparr>shape = ld @ [nat (int N * nrepeat), nat patch_width,
                                          nat patch_width],
                              dtype = Csingle, elems = out\<rparr>))"
proof (intro conjI allI impI)
  fix r
  assume "Patch_fwd fwd_patch max_threads images positions None patch_width nrepeat = Inr r"
  from Patch_fwd_shape [OF assms this]
  show "shape r = ld @ [nat (int N * nrepeat), nat patch_width, nat patch_width]"
    and "dtype r = Csingle" by simp_all
next
  assume h: "0 < patch_width \<and> 0 \<le> nrepeat \<and> c = 2 \<and> lead 2 (shape images) = ld \<and>
          dtype images = Csingle \<and> dtype positions = Single"
  then have p: "shape positions = ld @ [N, 2]" using assms(1) by simp
  from h show "Patch_fwd fwd_patch max_threads images positions None patch_width nrepeat =
            ebind (fwd_patch
                    \<lparr>grids = (int N, int (prod_list ld), patch_width),
                     blocks = min (next_power_two patch_width) max_threads,
                     arg_images = elems images,
                     arg_patches =
                       replicate (prod_list ld * nat (int N * nrepeat) * nat patch_width *
                                  nat patch_width) 0,
                     arg_positions = elems positions,
                     arg_scalars = [int (prod_list ld)] @ map int (tail2 (shape images)) @
                                   [int N, nrepeat, patch_width, patch_width]\<rparr>)
              (\<lambda>out. Inr \<lparr>shape = ld @ [nat (int N * nrepeat), nat patch_width,
                                          nat patch_width],
                              dtype = Csingle, elems = out\<rparr>)"
    by (intro Patch_fwd_returns [OF p]) simp_all
qed

theorem Patch_fwd_allocates_witness:
  "Patch_fwd (\<lambda>l. Inr (arg_patches l)) 1024
     \<lparr>shape = [4, 4], dtype = Csingle, elems = replicate 16 0\<rparr>
     \<lparr>shape = [3, 2], dtype = Single, elems = [0, 0, 1, 1, 2, 2]\<rparr> None 2 1 =
   Inr \<lparr>shape = [3, 2, 2], dtype = Csingle, elems = replicate 12 0\<rparr>"
  using Patch_fwd_allocates [of "\<lparr>shape = [3, 2], dtype = Single, elems = [0, 0, 1, 1, 2, 2]\<rparr>"
      "[]" 3 2 2 "\<lambda>l. Inr (arg_patches l)" 1024
      "\<lparr>shape = [4, 4], dtype = Csingle, elems = replicate 16 0\<rparr>" 1]
  by (simp add: lead_def)

lemma Patch_adj_requires:
  assumes "Patch_adj adj_patch max_threads positions patches images patch_width height width
             nrepeat = Inr r"
  shows "\<exists>ld N lp K w. shape positions = ld @ [N, 2] \<and> shape patches = lp @ [K, w, w] \<and>
           K \<noteq> 0 \<and> nrepeat \<le> int K \<and> int K dvd int N * nrepeat"
proof -
  from assms obtain N K w where n: "from_end 2 (shape positions) = Inr N"
    and c: "from_end (Suc 0) (shape positions) = Inr 2"
    and k: "from_end 3 (shape patches) = Inr K"
    and kk: "K \<noteq> 0" "nrepeat \<le> int K" "(int N * nrepeat) mod int K = 0"
    and w: "from_end (Suc 0) (shape patches) = Inr w" "from_end 2 (shape patches) = Inr w"
    unfolding Patch_adj_def
    by (clarsimp simp: ebind_Inr_iff py_assert_Inr_iff Let_def split: if_splits)
  from from_end_Inr_2 [OF n] obtain ld b where p: "shape positions = ld @ [N, b]" by blast
  with c have b: "b = 2" by simp
  from from_end_Inr_3 [OF k] obtain lp x y where q: "shape patches = lp @ [K, x, y]" by blast
  with w have "x = w" "y = w" by simp_all
  with p b q kk show ?thesis by (auto simp: dvd_eq_mod_eq_0)
qed

lemma Patch_adj_rejects:
  assumes "shape positions = ld @ [N, c]" and "shape patches = lp @ [K, w2, w1]" and "K \<noteq> 0"
    and "case images of None \<Rightarrow> 0 \<le> height \<and> 0 \<le> width | Some i \<Rightarrow> 2 \<le> length (shape i)"
    and "\<not> (w1 = w2 \<and> nrepeat \<le> int K \<and> int K dvd int N * nrepeat)"
  shows "Patch_adj adj_patch max_threads positions patches images patch_width height width
           nrepeat = Inl AssertionError"
proof -
  obtain im where im: "(case images of
              None \<Rightarrow> zeros (map int (lead 2 (shape positions)) @ [height, width])
            | Some i \<Rightarrow> Inr i) = Inr im" and l: "2 \<le> length (shape im)"
    using assms(1,4) by (cases images) (auto simp: zeros_def list_ex_neg)
  then obtain a where "from_end 2 (shape im) = Inr a" by (simp add: from_end_def)
  from from_end_Inr_2 [OF this] obtain li w where s: "shape im = li @ [a, w]"
    by blast
  show ?thesis
    apply (simp only: Patch_adj_def im)
    apply (insert assms(1,2,3,5))
    apply (simp add: py_assert_fails_iff Let_def s dvd_eq_mod_eq_0)
    apply (intro conjI impI)
     apply simp_all
    done
qed

text \<open>
  Claim C10, as stated: every input of \<open>Patch.adj\<close> that violates squareness, \<open>K \<ge> nrepeat\<close>
  or the divisibility of \<open>N * nrepeat\<close> by \<open>K\<close> fails an assertion. With \<open>K = 0\<close> patches and
  \<open>nrepeat = 1\<close> the condition \<open>K \<ge> nrepeat\<close> is violated, but the assertion's first operand
  \<open>(N * nrepeat) % K\<close> is evaluated first and raises \<open>ZeroDivisionError\<close>.
\<close>

theorem Patch_adj_no_patches_divides_by_zero:
  "Patch_adj (\<lambda>l. Inr (arg_images l)) 1024
     \<lparr>shape = [1, 2], dtype = Single, elems = [0, 0]\<rparr>
     \<lparr>shape = [0, 1, 1], dtype = Csingle, elems = []\<rparr>
     (Some \<lparr>shape = [1, 1], dtype = Csingle, elems = [0]\<rparr>) 1 0 0 1 = Inl ZeroDivisionError"
  by (simp add: Patch_adj_def from_end_def lead_def tail2_def py_assert_def)

text \<open>
  Claim C10, amended: \<open>Patch.adj\<close> returns only when \<open>positions\<close> has shape \<open>(*ld, N, 2)\<close>, the
  patches have shape \<open>(*lp, K, w, w)\<close> (square), \<open>K \<ge> nrepeat\<close>, \<open>K \<noteq> 0\<close> and \<open>K\<close> divides
  \<open>N * nrepeat\<close>. For \<open>positions\<close> of shape \<open>(*ld, N, c)\<close> and patches of shape
  \<open>(*lp, K, w2, w1)\<close> with \<open>K \<noteq> 0\<close>, and images of at least two dimensions (or, when
  \<open>images\<close> is not supplied, a nonnegative \<open>height\<close> and \<open>width\<close>), a call that violates
  squareness, \<open>K \<ge> nrepeat\<close> or the divisibility fails an assertion.
\<close>

theorem Patch_adj_shape_conditions:
  "(\<forall>r. Patch_adj adj_patch max_threads positions patches images patch_width height width
          nrepeat = Inr r \<longrightarrow>
        (\<exists>ld N lp K w. shape positions = ld @ [N, 2] \<and> shape patches = lp @ [K, w, w] \<and>
           K \<noteq> 0 \<and> nrepeat \<le> int K \<and> int K dvd int N * nrepeat)) \<and>
   (shape positions = ld' @ [N', c] \<and> shape patches = lp' @ [K', w2, w1] \<and> K' \<noteq> 0 \<and>
    (case images of None \<Rightarrow> 0 \<le> height \<and> 0 \<le> width | Some i \<Rightarrow> 2 \<le> length (shape i)) \<and>
    \<not> (w1 = w2 \<and> nrepeat \<le> int K' \<and> int K' dvd int N' * nrepeat) \<longrightarrow>
    Patch_adj adj_patch max_threads positions patches images patch_width height width
      nrepeat = Inl AssertionError)"
proof (intro conjI allI impI)
  fix r
  assume "Patch_adj adj_patch max_threads positions patches images patch_width height width
          nrepeat = Inr r"
  then show "\<exists>ld N lp K w. shape positions = ld @ [N, 2] \<and> shape patches = lp @ [K, w, w] \<and>
           K \<noteq> 0 \<and> nrepeat \<le> int K \<and> int K dvd int N * nrepeat"
    by (rule Patch_adj_requires)
next
  assume h: "shape positions = ld' @ [N', c] \<and> shape patches = lp' @ [K', w2, w1] \<and> K' \<noteq> 0 \<and>
    (case images of None \<Rightarrow> 0 \<le> height \<and> 0 \<le> width | Some i \<Rightarrow> 2 \<le> length (shape i)) \<and>
    \<not> (w1 = w2 \<and> nrepeat \<le> int K' \<and> int K' dvd int N' * nrepeat)"
  show "Patch_adj adj_patch max_threads positions patches images patch_width height width
      nrepeat = Inl AssertionError"
    by (rule Patch_adj_rejects [of positions ld' N' c patches lp' K' w2 w1]) (use h in simp_all)
qed

theorem Patch_adj_shape_conditions_witness:
  "Patch_adj (\<lambda>l. Inr (arg_images l)) 1024
     \<lparr>shape = [2, 2], dtype = Single, elems = [0, 0, 1, 1]\<rparr>
     \<lparr>shape = [2, 3, 2], dtype = Csingle, elems = replicate 12 0\<rparr> None 0 4 4 1 =
   Inl AssertionError \<and>
   Patch_adj (\<lambda>l. Inr (arg_images l)) 1024
     \<lparr>shape = [2, 2], dtype = Single, elems = [0, 0, 1, 1]\<rparr>
     \<lparr>shape = [2, 3, 3], dtype = Csingle, elems = replicate 18 0\<rparr> None 0 4 4 1 =
   Inr \<lparr>shape = [4, 4], dtype = Csingle, elems = replicate 16 0\<rparr> \<and>
   (\<exists>ld N lp K w.
      shape \<lparr>shape = [2, 2], dtype = Single, elems = [0, 0, 1, 1 :: real]\<rparr> = ld @ [N, 2] \<and>
      shape \<lparr>shape = [2, 3, 3], dtype = Csingle, elems = replicate 18 (0 :: complex)\<rparr> =
        lp @ [K, w, w] \<and>
      K \<noteq> 0 \<and> 1 \<le> int K \<and> int K dvd int N * 1)"
proof -
  have ok: "Patch_adj (\<lambda>l. Inr (arg_images l)) 1024
     \<lparr>shape = [2, 2], dtype = Single, elems = [0, 0, 1, 1]\<rparr>
     \<lparr>shape = [2, 3, 3], dtype = Csingle, elems = replicate 18 0\<rparr> None 0 4 4 1 =
   Inr \<lparr>shape = [4, 4], dtype = Csingle, elems = replicate 16 0\<rparr>"
    by (simp add: Patch_adj_def from_end_def lead_def tail2_def py_assert_def zeros_def)
  show ?thesis
    using ok
      Patch_adj_shape_conditions [of "\<lambda>l. Inr (arg_images l)" 1024
        "\<lparr>shape = [2, 2], dtype = Single, elems = [0, 0, 1, 1]\<rparr>"
        "\<lparr>shape = [2, 3, 2], dtype = Csingle, elems = replicate 12 0\<rparr>" None 0 4 4 1
        "[]" 2 2 "[]" 2 3 2]
      Patch_adj_shape_conditions [of "\<lambda>l. Inr (arg_images l)" 1024
        "\<lparr>shape = [2, 2], dtype = Single, elems = [0, 0, 1, 1]\<rparr>"
        "\<lparr>shape = [2, 3, 3], dtype = Csingle, elems = replicate 18 0\<rparr>" None 0 4 4 1]
    by simp
qed

section \<open>Properties of the divided solver\<close>

text \<open>
  Claim C6: whenever \<open>divided\<close> returns, the returned \<open>scan\<close> is the input \<open>scan\<close> (the
  position correction is commented out and \<open>recover_positions\<close> is never read); when
  \<open>recover_psi\<close> is false the returned \<open>psi\<close> is the input \<open>psi\<close>, and when \<open>recover_probe\<close>
  is false the returned \<open>probe\<close> is the input \<open>probe\<close>.
\<close>

theorem divided_frame:
  assumes "divided op data probe scan psi recover_psi recover_probe recover_positions cg_iter =
           Inr r"
  shows "sol_scan r = scan \<and>
         (\<not> recover_psi \<longrightarrow> sol_psi r = psi) \<and>
         (\<not> recover_probe \<longrightarrow> sol_probe r = probe)"
  using assms unfolding divided_def
  by (auto simp: ebind_Inr_iff split: if_splits)

theorem divided_frame_witness:
  "divided \<lparr>op_fwd = \<lambda>psi scan probe. Inr (psi + scan + probe),
            propagation_adj = \<lambda>f. Inr (f + 1),
            update_phase = \<lambda>data f n. Inr (f + data, n),
            update_object = \<lambda>f probe scan psi n. Inr (psi + f, n),
            update_probe = \<lambda>f probe scan psi n. Inr (probe + f, n)\<rparr>
     (1 :: int) (5 :: int) (7 :: int) (3 :: int) False False True 4 =
   Inr \<lparr>sol_psi = 3, sol_probe = 5, sol_cost = 4, sol_scan = 7, sol_farplane = 16\<rparr> \<and>
   sol_scan \<lparr>sol_psi = 3 :: int, sol_probe = 5 :: int, sol_cost = 4 :: int, sol_scan = 7 :: int,
             sol_farplane = 16 :: int\<rparr> = 7"
proof -
  have e: "divided \<lparr>op_fwd = \<lambda>psi scan probe. Inr (psi + scan + probe),
            propagation_adj = \<lambda>f. Inr (f + 1),
            update_phase = \<lambda>data f n. Inr (f + data, n),
            update_object = \<lambda>f probe scan psi n. Inr (psi + f, n),
            update_probe = \<lambda>f probe scan psi n. Inr (probe + f, n)\<rparr>
     (1 :: int) (5 :: int) (7 :: int) (3 :: int) False False True 4 =
   Inr \<lparr>sol_psi = 3, sol_probe = 5, sol_cost = 4, sol_scan = 7, sol_farplane = 16\<rparr>"
    by (simp add: divided_def)
  from divided_frame [OF e] e show ?thesis by simp
qed

section \<open>Properties of the outlier clipping\<close>

lemma percentile_bounds:
  assumes "xs \<noteq> []" "0 \<le> q" "q \<le> 100"
  defines "h \<equiv> q / 100 * real (length xs - 1)"
  shows "nat \<lfloor>h\<rfloor> \<le> length xs - 1" "0 \<le> h - real (nat \<lfloor>h\<rfloor>)"
proof -
  have h0: "0 \<le> h" using assms by (simp add: h_def)
  have "h \<le> 1 * real (length xs - 1)"
    unfolding h_def using assms(2,3) by (intro mult_right_mono) auto
  then have "\<lfloor>h\<rfloor> \<le> int (length xs - 1)" by (simp add: floor_le_iff)
  then show "nat \<lfloor>h\<rfloor> \<le> length xs - 1" by simp
  show "0 \<le> h - real (nat \<lfloor>h\<rfloor>)" using h0 by (simp add: of_nat_nat)
qed

lemma percentile_nonneg:
  assumes "xs \<noteq> []" "\<forall>x\<in>set xs. 0 \<le> x" "0 \<le> q" "q \<le> 100"
  shows "\<exists>v. percentile xs q = Some v \<and> 0 \<le> v"
proof -
  define ys where "ys = sort xs"
  define h where "h = q / 100 * real (length xs - 1)"
  define lo where "lo = nat \<lfloor>h\<rfloor>"
  define hi where "hi = min (lo + 1) (length xs - 1)"
  have len: "length ys = length xs" by (simp add: ys_def)
  have n: "0 < length xs" using assms(1) by simp
  have lo: "lo \<le> length xs - 1" and fr: "0 \<le> h - real lo"
    using percentile_bounds [OF assms(1,3,4)] by (simp_all add: lo_def h_def)
  have "hi \<le> length xs - 1" by (simp add: hi_def)
  then have hi1: "hi < length ys" using n len by linarith
  have hi2: "lo \<le> hi" using lo by (simp add: hi_def)
  note hi = hi1 hi2
  have "sorted ys" by (simp add: ys_def)
  then have mono: "ys ! lo \<le> ys ! hi" using hi by (simp add: sorted_nth_mono)
  have "lo < length ys" using lo n len by linarith
  then have "ys ! lo \<in> set xs" unfolding ys_def by (metis nth_mem set_sort)
  then have "0 \<le> ys ! lo" using assms(2) by blast
  moreover have "0 \<le> (h - real lo) * (ys ! hi - ys ! lo)" using fr mono by simp
  ultimately have "0 \<le> ys ! lo + (h - real lo) * (ys ! hi - ys ! lo)" by simp
  moreover have "percentile xs q = Some (ys ! lo + (h - real lo) * (ys ! hi - ys ! lo))"
    using assms(1,3,4) by (simp add: percentile_def Let_def ys_def h_def lo_def hi_def)
  ultimately show ?thesis by simp
qed

lemma has_shape_nth:
  assumes "has_shape ws E S" "p < length ws"
  shows "length (ws ! p) = E" "e < E \<Longrightarrow> length (ws ! p ! e) = S"
  using assms by (auto simp: has_shape_def list_all_length)

lemma p95_table_nth:
  assumes "has_shape ws E S" "ws \<noteq> []" "e < E" "s < S"
  shows "length (p95_table ws) = E" "length (p95_table ws ! e) = S"
    "p95_table ws ! e ! s = percentile (map (\<lambda>row. row ! e ! s) ws) 95"
proof -
  obtain r rs where ws: "ws = r # rs" using assms(2) by (cases ws) auto
  have r: "length r = E" "length (r ! e) = S"
    using has_shape_nth [OF assms(1), of 0] assms(3) by (simp_all add: ws)
  show "length (p95_table ws) = E" by (simp add: p95_table_def ws r)
  show "length (p95_table ws ! e) = S" using assms(3) by (simp add: p95_table_def ws r)
  show "p95_table ws ! e ! s = percentile (map (\<lambda>row. row ! e ! s) ws) 95"
    using assms(3,4) by (simp add: p95_table_def ws r)
qed

lemma has_shape_abs: "has_shape (map (map (map abs)) ws) E S = has_shape ws E S"
  by (simp add: has_shape_def list_all_length)

lemma clipped_nth:
  assumes "has_shape ws E S" "p < length ws" "e < E" "s < S"
  shows "snd (constrain_variable_probe gs v ws) ! p ! e ! s =
     map_option (\<lambda>q. min \<bar>ws ! p ! e ! s\<bar> (1.5 * q) * sgn (ws ! p ! e ! s))
       (percentile (map (\<lambda>row. \<bar>row ! e ! s\<bar>) ws) 95)"
proof -
  have ne: "ws \<noteq> []" using assms(2) by auto
  let ?a = "map (map (map abs)) ws"
  have sh: "has_shape ?a E S" using assms(1) by (simp add: has_shape_abs)
  have ane: "?a \<noteq> []" using ne by simp
  note t = p95_table_nth [OF sh ane assms(3,4)]
  have col: "map (\<lambda>row. row ! e ! s) ?a = map (\<lambda>row. \<bar>row ! e ! s\<bar>) ws"
  proof (rule nth_equalityI)
    show "length (map (\<lambda>row. row ! e ! s) ?a) = length (map (\<lambda>row. \<bar>row ! e ! s\<bar>) ws)" by simp
  next
    fix i assume "i < length (map (\<lambda>row. row ! e ! s) ?a)"
    then have i: "i < length ws" by simp
    from has_shape_nth [OF assms(1) i] assms(3,4) i
    show "map (\<lambda>row. row ! e ! s) ?a ! i = map (\<lambda>row. \<bar>row ! e ! s\<bar>) ws ! i" by simp
  qed
  have l: "length (ws ! p) = E" "length (ws ! p ! e) = S"
    using has_shape_nth [OF assms(1,2)] assms(3) by simp_all
  note t3 = t(3) [unfolded col]
  show ?thesis
    using assms(2,3,4) l t(1,2) t3
    by (simp add: constrain_variable_probe_def Let_def)
qed

lemma clip_bound:
  fixes w P :: real
  assumes "0 \<le> P"
  shows "\<bar>sgn w * min \<bar>w\<bar> (1.5 * P)\<bar> \<le> 1.5 * P"
proof -
  have m: "0 \<le> min \<bar>w\<bar> (1.5 * P)" using assms by simp
  have "\<bar>sgn w * min \<bar>w\<bar> (1.5 * P)\<bar> = \<bar>sgn w\<bar> * min \<bar>w\<bar> (1.5 * P)"
    using m by (simp only: abs_mult abs_of_nonneg)
  also have "\<dots> \<le> 1 * min \<bar>w\<bar> (1.5 * P)"
    by (rule mult_right_mono [OF _ m]) (simp add: abs_sgn_eq)
  also have "\<dots> \<le> 1.5 * P" by simp
  finally show ?thesis .
qed

lemma clip_sign:
  fixes w P :: real
  assumes "0 < P \<or> w = 0"
  shows "sgn (sgn w * min \<bar>w\<bar> (1.5 * P)) = sgn w"
proof (cases "w = 0")
  case True
  then show ?thesis by simp
next
  case False
  with assms have "0 < P" by simp
  with False have "0 < min \<bar>w\<bar> (1.5 * P)" by simp
  then have "sgn (min \<bar>w\<bar> (1.5 * P)) = 1" by (rule sgn_pos)
  then show ?thesis by (simp only: sgn_mult sgn_sgn mult_1_right)
qed

lemma clip_zero:
  fixes w :: real
  shows "sgn w * min \<bar>w\<bar> (1.5 * 0) = 0"
proof -
  have "min \<bar>w\<bar> (1.5 * 0) = 0" by simp
  then show ?thesis by (simp only: mult_zero_right)
qed


lemma percentile_cex: "percentile (replicate 20 0 @ [5]) 95 = Some 0"
proof -
  have s: "sort (replicate 20 0 @ [5 :: real]) = replicate 20 0 @ [5]"
    by (rule sorted_sort_id) (simp add: sorted_append)
  show ?thesis
    unfolding percentile_def Let_def s by (simp add: nth_append)
qed


text \<open>
  Claim C9, as stated: every clipped weight equals \<open>sign(w) * min(|w|, 1.5 * P95)\<close>, its
  magnitude is at most \<open>1.5 * P95\<close>, and the sign of every weight is preserved. The sign is
  lost when the percentile is zero: in a column of twenty weights \<open>0\<close> and one weight \<open>5\<close>
  the 95th percentile of the magnitudes is \<open>0\<close>, and the weight \<open>5\<close> becomes \<open>0\<close>.
\<close>

theorem clipping_zeroes_weights:
  "snd (constrain_variable_probe (\<lambda>v. v) () (replicate 20 [[0]] @ [[[5]]])) ! 20 ! 0 ! 0 = Some 0
   \<and> sgn (5 :: real) = 1"
proof -
  have sh: "has_shape (replicate 20 [[0]] @ [[[5 :: real]]]) 1 1"
    by (simp add: has_shape_def list_all_iff)
  have col: "map (\<lambda>row. \<bar>row ! 0 ! 0\<bar>) (replicate 20 [[0]] @ [[[5 :: real]]]) = replicate 20 0 @ [5]"
    by simp
  have w: "(replicate 20 [[0]] @ [[[5 :: real]]]) ! 20 ! 0 ! 0 = 5"
    by (simp add: nth_append)
  have "snd (constrain_variable_probe (\<lambda>v. v) () (replicate 20 [[0]] @ [[[5]]])) ! 20 ! 0 ! 0 =
      map_option (\<lambda>q. min \<bar>5\<bar> (1.5 * q) * sgn 5) (Some 0)"
    using clipped_nth [OF sh, of 20 0 0 "\<lambda>v. v" "()"]
    unfolding col percentile_cex w by simp
  then show ?thesis by simp
qed


text \<open>
  Claim C9, amended: for weights of shape \<open>(POSI, E, S)\<close> and every position \<open>p\<close> and column
  \<open>(e, s)\<close>, the 95th percentile \<open>P95\<close> of the magnitudes of the column over the positions
  exists and is nonnegative, the clipped weight is \<open>sign(w) * min(|w|, 1.5 * P95)\<close>, its
  magnitude is at most \<open>1.5 * P95\<close>, its sign is the sign of \<open>w\<close> whenever \<open>P95 > 0\<close> or
  \<open>w = 0\<close>, and it is \<open>0\<close> when \<open>P95 = 0\<close>.
\<close>

theorem clipped_weights:
  assumes "has_shape ws E S" and "p < length ws" and "e < E" and "s < S"
  shows "\<exists>P95. percentile (map (\<lambda>row. \<bar>row ! e ! s\<bar>) ws) 95 = Some P95 \<and> 0 \<le> P95 \<and>
           snd (constrain_variable_probe gs v ws) ! p ! e ! s =
             Some (sgn (ws ! p ! e ! s) * min \<bar>ws ! p ! e ! s\<bar> (1.5 * P95)) \<and>
           \<bar>sgn (ws ! p ! e ! s) * min \<bar>ws ! p ! e ! s\<bar> (1.5 * P95)\<bar> \<le> 1.5 * P95 \<and>
           (0 < P95 \<or> ws ! p ! e ! s = 0 \<longrightarrow>
              sgn (sgn (ws ! p ! e ! s) * min \<bar>ws ! p ! e ! s\<bar> (1.5 * P95)) = sgn (ws ! p ! e ! s)) \<and>
           (P95 = 0 \<longrightarrow> sgn (ws ! p ! e ! s) * min \<bar>ws ! p ! e ! s\<bar> (1.5 * P95) = 0)"
proof -
  let ?col = "map (\<lambda>row. \<bar>row ! e ! s\<bar>) ws"
  let ?w = "ws ! p ! e ! s"
  have ne: "?col \<noteq> []" using assms(2) by auto
  have nn: "\<forall>x\<in>set ?col. 0 \<le> x" by auto
  have "\<exists>v. percentile ?col 95 = Some v \<and> 0 \<le> v"
    by (rule percentile_nonneg [OF ne nn]) simp_all
  then obtain P95 where P: "percentile ?col 95 = Some P95" "0 \<le> P95" by blast
  have "snd (constrain_variable_probe gs v ws) ! p ! e ! s =
      map_option (\<lambda>q. min \<bar>?w\<bar> (1.5 * q) * sgn ?w) (Some P95)"
    by (simp only: clipped_nth [OF assms] P(1))
  also have "\<dots> = Some (sgn ?w * min \<bar>?w\<bar> (1.5 * P95))"
    by (simp only: option.map mult.commute [of "sgn ?w"])
  finally have out: "snd (constrain_variable_probe gs v ws) ! p ! e ! s =
      Some (sgn ?w * min \<bar>?w\<bar> (1.5 * P95))" .
  show ?thesis
  proof (intro exI [of _ P95] conjI impI)
    show "percentile ?col 95 = Some P95" by (rule P(1))
    show "0 \<le> P95" by (rule P(2))
    show "snd (constrain_variable_probe gs v ws) ! p ! e ! s =
      Some (sgn ?w * min \<bar>?w\<bar> (1.5 * P95))" by (rule out)
    show "\<bar>sgn ?w * min \<bar>?w\<bar> (1.5 * P95)\<bar> \<le> 1.5 * P95"
      by (rule clip_bound [OF P(2)])
    show "sgn (sgn ?w * min \<bar>?w\<bar> (1.5 * P95)) = sgn ?w" if "0 < P95 \<or> ?w = 0"
      using that by (rule clip_sign)
    show "sgn ?w * min \<bar>?w\<bar> (1.5 * P95) = 0" if "P95 = 0"
      unfolding that by (rule clip_zero)
  qed
qed

theorem clipped_weights_witness:
  "snd (constrain_variable_probe (\<lambda>v. v) () [[[1]], [[- 3]]]) ! 1 ! 0 ! 0 = Some (- 3)"
proof -
  have p: "percentile [1, 3] 95 = Some (29 / 10)"
    by (simp add: percentile_def Let_def)
  have sh: "has_shape [[[1]], [[- 3 :: real]]] 1 1" by (simp add: has_shape_def)
  from clipped_weights [OF sh, of 1 0 0 "\<lambda>v. v" "()"]
  obtain P95 where "percentile (map (\<lambda>row. \<bar>row ! 0 ! 0\<bar>) [[[1]], [[- 3 :: real]]]) 95 = Some P95"
    and o: "snd (constrain_variable_probe (\<lambda>v. v) () [[[1]], [[- 3]]]) ! 1 ! 0 ! 0 =
      Some (sgn ([[[1]], [[- 3 :: real]]] ! 1 ! 0 ! 0) * min \<bar>[[[1]], [[- 3 :: real]]] ! 1 ! 0 ! 0\<bar> (1.5 * P95))"
    by auto
  then have "P95 = 29 / 10" using p by simp
  with o show ?thesis by simp
qed

section \<open>Properties of the sparsity constraint\<close>

lemma round_half_even_int: "round_half_even (of_int n) = n"
  by (simp add: round_half_even_def)

lemma float64_pow2:
  assumes "- 1022 \<le> k" "k < 1024"
  shows "float64 (2 powr of_int k) = Some (2 powr of_int k)"
proof -
  have l: "\<lfloor>log 2 \<bar>2 powr of_int k :: real\<bar>\<rfloor> = k" by simp
  have e: "max k (- 1022) - 52 = k - 52" using assms by simp
  have q: "(2 :: real) powr of_int k / 2 powr of_int (k - 52) = of_int (2 ^ 52)"
  proof -
    have "(2 :: real) powr of_int k / 2 powr of_int (k - 52) =
        2 powr (of_int k - of_int (k - 52))"
      by (simp only: powr_diff)
    also have "\<dots> = 2 powr 52" by simp
    also have "\<dots> = of_int (2 ^ 52)" by (simp add: powr_numeral del: of_int_power)
    finally show ?thesis .
  qed
  have r: "of_int (2 ^ 52) * (2 :: real) powr of_int (k - 52) = 2 powr of_int k"
  proof -
    have "(of_int (2 ^ 52) :: real) = 2 powr 52" by (simp add: powr_numeral)
    then have "of_int (2 ^ 52) * (2 :: real) powr of_int (k - 52) = 2 powr (52 + of_int (k - 52))"
      by (simp only: powr_add)
    then show ?thesis by simp
  qed
  have b: "\<not> (2 :: real) ^ 1024 \<le> \<bar>2 powr of_int k\<bar>"
  proof -
    have "(2 :: real) powr of_int k < 2 powr 1024" using assms by (intro powr_less_mono) simp_all
    also have "(2 :: real) powr 1024 = 2 ^ 1024" by (rule powr_numeral) simp
    finally have "(2 :: real) powr of_int k < 2 ^ 1024" .
    moreover have "\<bar>(2 :: real) powr of_int k\<bar> = 2 powr of_int k" by simp
    ultimately show ?thesis by (simp only: not_le)
  qed
  show ?thesis
    unfolding float64_def Let_def l e q round_half_even_int r using b by (simp only: if_False powr_non_neg powr_eq_0_iff) simp
qed

lemma float64_one: "float64 1 = Some 1"
  using float64_pow2 [of 0] by simp

lemma float64_half: "float64 (1 / 2) = Some (1 / 2)"
proof -
  have "(2 :: real) powr of_int (- 1) = 1 / 2" by (simp add: powr_minus_divide)
  with float64_pow2 [of "- 1"] show ?thesis by simp
qed


lemma zero_at_length [simp]: "length (zero_at h coords m) = length m"
  unfolding zero_at_def by (induction coords arbitrary: m) (auto split: prod.splits)

lemma fold_zero_nth:
  "i < length m \<Longrightarrow>
   fold (\<lambda>j m. m[j := 0]) js m ! i = (if i \<in> set js then 0 else m ! i)"
  by (induction js arbitrary: m) (auto simp: nth_list_update)

lemma zero_at_unravel:
  assumes "0 < h"
  shows "zero_at h (map (\<lambda>i. (i div h, i mod h)) idx) m = fold (\<lambda>j m. m[j := 0]) idx m"
  unfolding zero_at_def
  by (induction idx arbitrary: m) (simp_all add: fold_map comp_def)

lemma zero_at_nth:
  assumes "0 < h" "i < length m"
  shows "zero_at h (map (\<lambda>i. (i div h, i mod h)) idx) m ! i = (if i \<in> set idx then 0 else m ! i)"
  by (simp only: zero_at_unravel [OF assms(1)] fold_zero_nth [OF assms(2)])


lemma zero_count_card:
  "zero_count p = card {i. i < wide p * high p \<and> (\<forall>m\<in>set (modes p). m ! i = 0)}"
proof -
  let ?P = "\<lambda>i. list_all (\<lambda>m. m ! i = 0) (modes p)"
  have "zero_count p = card (set (filter ?P [0..<wide p * high p]))"
    unfolding zero_count_def by (rule distinct_card [symmetric]) simp
  also have "set (filter ?P [0..<wide p * high p]) =
      {i. i < wide p * high p \<and> (\<forall>m\<in>set (modes p). m ! i = 0)}"
    by (auto simp: list_all_iff)
  finally show ?thesis .
qed

lemma sparsity_result:
  assumes f: "f \<noteq> 1" and wf: "well_formed p" and n: "0 < wide p * high p"
    and kf: "fmul_int (fmul_int (fsub 1 f) (high p)) (wide p) = Some x"
    and kb: "0 \<le> py_int x" "py_int x < int (wide p * high p)"
    and ap: "argpartition_contract ap" and gf: "filter_contract gf"
  shows "\<exists>S. constrain_probe_sparsity gf ap p f =
            Inr (p\<lparr>modes := map (\<lambda>m. map (\<lambda>i. if i \<in> S then 0 else m ! i)
                                         [0..<wide p * high p]) (modes p)\<rparr>) \<and>
          S \<subseteq> {..<wide p * high p} \<and> int (card S) = py_int x"
proof -
  let ?n = "wide p * high p"
  let ?int = "gf (real (wide p) / 8, real (high p) / 8)
      (map (\<lambda>i. sum_list (map (\<lambda>m. (cmod (m ! i))\<^sup>2) (modes p))) [0..<?n])"
  define k where "k = py_int x"
  have k: "0 \<le> k" "k < int ?n" using kb by (simp_all add: k_def)
  have ki: "int_of_float (fmul_int (fmul_int (fsub 1 f) (high p)) (wide p)) = Inr k"
    by (simp add: kf int_of_float_def k_def)
  have len: "length ?int = ?n" using gf by (simp add: filter_contract_def)
  from ap k len obtain idx where idx: "ap ?int k = Inr idx" "distinct idx"
      "set idx = {..<?n}"
    unfolding argpartition_contract_def by (metis (no_types, lifting))
  define S where "S = set (take (nat k) idx)"
  have lidx: "length idx = ?n" using idx(2,3) by (metis card_lessThan distinct_card)
  have "set (take (nat k) idx) \<subseteq> set idx" by (rule set_take_subset)
  then have sub: "S \<subseteq> {..<?n}" unfolding S_def idx(3) .
  have "card S = length (take (nat k) idx)"
    unfolding S_def by (rule distinct_card) (simp add: idx(2))
  also have "\<dots> = nat k"
  proof -
    have "nat k \<le> ?n" using k(2) by linarith
    then show ?thesis by (simp add: lidx)
  qed
  finally have card: "int (card S) = k" using k(1) by simp
  have pre: "py_prefix k idx = take (nat k) idx" using k(1) by (simp add: py_prefix_def)
  have nobad: "\<not> list_ex (\<lambda>i. ?n \<le> i) (take (nat k) idx)"
    using sub unfolding S_def by (auto simp: list_ex_iff)
  have h: "0 < high p" using n by simp
  have un: "unravel_index (take (nat k) idx) (wide p, high p) =
      Inr (map (\<lambda>i. (i div high p, i mod high p)) (take (nat k) idx))"
    using nobad by (simp add: unravel_index_def)
  have modes_eq: "map (zero_at (high p) (map (\<lambda>i. (i div high p, i mod high p)) (take (nat k) idx)))
        (modes p) =
      map (\<lambda>m. map (\<lambda>i. if i \<in> S then 0 else m ! i) [0..<?n]) (modes p)"
  proof (rule map_cong [OF refl])
    fix m assume "m \<in> set (modes p)"
    then have lm: "length m = ?n" using wf by (simp add: well_formed_def list_all_iff)
    show "zero_at (high p) (map (\<lambda>i. (i div high p, i mod high p)) (take (nat k) idx)) m =
        map (\<lambda>i. if i \<in> S then 0 else m ! i) [0..<?n]"
    proof (rule nth_equalityI)
      show "length (zero_at (high p) (map (\<lambda>i. (i div high p, i mod high p)) (take (nat k) idx)) m) =
          length (map (\<lambda>i. if i \<in> S then 0 else m ! i) [0..<?n])"
        by (simp add: lm)
    next
      fix i
      assume "i < length (zero_at (high p) (map (\<lambda>i. (i div high p, i mod high p)) (take (nat k) idx)) m)"
      then have i: "i < length m" by simp
      then have i': "i < ?n" using lm by simp
      show "zero_at (high p) (map (\<lambda>i. (i div high p, i mod high p)) (take (nat k) idx)) m ! i =
          map (\<lambda>i. if i \<in> S then 0 else m ! i) [0..<?n] ! i"
        using i' by (simp add: zero_at_nth [OF h i] S_def)
    qed
  qed
  have res: "constrain_probe_sparsity gf ap p f =
      Inr (p\<lparr>modes := map (\<lambda>m. map (\<lambda>i. if i \<in> S then 0 else m ! i) [0..<?n]) (modes p)\<rparr>)"
    using f n unfolding constrain_probe_sparsity_def Let_def ki
    by (simp add: idx(1) pre un modes_eq)
  have c2: "int (card S) = py_int x" using card by (simp add: k_def)
  show ?thesis by (intro exI [of _ S] conjI) (fact res, fact sub, fact c2)
qed


lemma zero_count_after:
  assumes "S \<subseteq> {..<wide p * high p}"
  shows "zero_count (p\<lparr>modes := map (\<lambda>m. map (\<lambda>i. if i \<in> S then 0 else m ! i)
                                         [0..<wide p * high p]) (modes p)\<rparr>) =
         card (S \<union> {i. i < wide p * high p \<and> (\<forall>m\<in>set (modes p). m ! i = 0)})"
proof -
  have "{i. i < wide p * high p \<and>
            (\<forall>m\<in>set (modes p). map (\<lambda>i. if i \<in> S then 0 else m ! i) [0..<wide p * high p] ! i = 0)} =
        S \<union> {i. i < wide p * high p \<and> (\<forall>m\<in>set (modes p). m ! i = 0)}"
    using assms by auto
  then show ?thesis by (simp add: zero_count_card)
qed


text \<open>
  What the function does, for a well-formed probe with at least one pixel and \<open>f \<noteq> 1\<close>:
  when the double-precision product is finite and its integer part \<open>k\<close> is a valid
  \<open>kth\<close> for \<open>argpartition\<close> (\<open>0 \<le> k < WIDE * HIGH\<close>), exactly \<open>k\<close> pixel coordinates are set
  to zero in all modes; the coordinates that are zero in all modes afterwards are these and
  those that were zero before.
\<close>

lemma sparsity_zeroes_k:
  assumes f: "f \<noteq> 1" and wf: "well_formed p" and n: "0 < wide p * high p"
    and kf: "fmul_int (fmul_int (fsub 1 f) (high p)) (wide p) = Some x"
    and kb: "0 \<le> py_int x" "py_int x < int (wide p * high p)"
    and ap: "argpartition_contract ap" and gf: "filter_contract gf"
  shows "\<exists>p'. constrain_probe_sparsity gf ap p f = Inr p' \<and>
           py_int x \<le> int (zero_count p') \<and>
           int (zero_count p') \<le> py_int x + int (zero_count p)"
proof -
  from sparsity_result [OF assms] obtain S where
    res: "constrain_probe_sparsity gf ap p f =
            Inr (p\<lparr>modes := map (\<lambda>m. map (\<lambda>i. if i \<in> S then 0 else m ! i)
                                         [0..<wide p * high p]) (modes p)\<rparr>)"
    and sub: "S \<subseteq> {..<wide p * high p}"
    and card: "int (card S) = py_int x"
    by blast
  let ?Z = "{i. i < wide p * high p \<and> (\<forall>m\<in>set (modes p). m ! i = 0)}"
  have fin: "finite S" "finite ?Z" using sub by (auto intro: finite_subset)
  have lo: "card S \<le> card (S \<union> ?Z)" using fin by (intro card_mono) auto
  have hi: "card (S \<union> ?Z) \<le> card S + card ?Z" by (rule card_Un_le)
  have z: "zero_count p = card ?Z" by (rule zero_count_card)
  show ?thesis
    unfolding res
    using lo hi card by (simp add: zero_count_after [OF sub] z)
qed

lemma sparsity_k_half: "int_of_float (fmul_int (fmul_int (fsub 1 (1 / 2)) 1) 1) = Inr 0"
  by (simp add: fsub_def fmul_int_def int_of_float_def float64_half float64_one py_int_def)

text \<open>
  Claim C8: after \<open>constrain_probe_sparsity(probe, f)\<close> with \<open>0 < f \<le> 1\<close> at least
  \<open>(1 - f) * width * height\<close> pixel coordinates are zero in all modes. The function sets
  \<open>int((1 - f) * width * height)\<close> pixels to zero, the product truncated, where its own
  documentation (``so no more than f/1 elements are nonzero'') needs it rounded up. For one
  mode of one pixel with value \<open>1\<close> and \<open>f = 1/2\<close> (every double operation is exact) the
  number is \<open>0\<close>: the probe is returned as it was, no coordinate is zero where the claim
  requires at least \<open>1/2\<close>, and one element is nonzero where the documentation allows \<open>1/2\<close>.
\<close>

theorem sparsity_count_below_fraction:
  "constrain_probe_sparsity (\<lambda>sigma xs. xs) (\<lambda>xs k. Inr [0..<length xs])
     \<lparr>wide = 1, high = 1, modes = [[1]]\<rparr> (1 / 2) = Inr \<lparr>wide = 1, high = 1, modes = [[1]]\<rparr> \<and>
   real (zero_count \<lparr>wide = 1, high = 1, modes = [[1]]\<rparr>) < (1 - 1 / 2) * 1 * 1 \<and>
   1 / 2 * 1 * 1 < real (1 * 1 - zero_count \<lparr>wide = 1, high = 1, modes = [[1]]\<rparr>)"
proof -
  have "constrain_probe_sparsity (\<lambda>sigma xs. xs) (\<lambda>xs k. Inr [0..<length xs])
     \<lparr>wide = 1, high = 1, modes = [[1]]\<rparr> (1 / 2) = Inr \<lparr>wide = 1, high = 1, modes = [[1]]\<rparr>"
    using sparsity_k_half
    by (simp add: constrain_probe_sparsity_def py_prefix_def unravel_index_def zero_at_def)
  then show ?thesis by (simp add: zero_count_def)
qed

section \<open>Properties of the orthogonalization\<close>

lemma sum_list_upt: "sum_list (map f [0..<n]) = (\<Sum>i<n. f i)"
  by (simp add: interv_sum_list_conv_sum_set_nat atLeast0LessThan)





















section \<open>Properties of the eigen-probe update and of the initial weights\<close>

lemma map2_upt:
  "length xs = n \<Longrightarrow> length ys = n \<Longrightarrow> map2 f xs ys = map (\<lambda>i. f (xs ! i) (ys ! i)) [0..<n]"
  by (intro nth_equalityI) simp_all

lemma mean_c_upt: "mean_c (map f [0..<n]) = (\<Sum>i<n. f i) / of_nat n"
  by (simp add: mean_c_def sum_list_upt)

lemma mean_r_upt: "mean_r (map f [0..<n]) = (\<Sum>i<n. f i) / real n"
  by (simp add: mean_r_def sum_list_upt)

lemma weight_column_regular:
  assumes "W \<noteq> []" "\<forall>row\<in>set W. c < length row \<and> m < length (row ! c)"
  shows "weight_column W c m = Some (selected_column W c m)"
  using assms by (cases W) (simp_all add: weight_column_def selected_column_def)

lemma norm2_real_sq_norm: "(norm2_real col)\<^sup>2 = sq_norm col"
proof -
  have "map (\<lambda>x. x\<^sup>2) col = map (\<lambda>p. (col ! p)\<^sup>2) [0..<length col]"
    by (intro nth_equalityI) simp_all
  then show ?thesis by (simp only: norm2_real_sq sum_list_upt sq_norm_def)
qed

lemma eigen_mode_regular:
  assumes "1 \<le> c" "c - 1 < length E" "m < length (E ! (c - 1))"
  shows "eigen_mode E c m = Some (selected_mode E c m)"
  using assms by (simp add: eigen_mode_def selected_mode_def)

lemma get_update_lead_values:
  assumes wc: "weight_column W c m = Some col" and em: "eigen_mode E c m = Some e"
    and P: "length col = P" and Q: "length e = Q"
    and R: "length R = P" "\<forall>row\<in>set R. length row = Q"
  shows "get_update_lead c m R E W =
         Inr (Some (if sq_norm col = 0 then replicate Q None else map Some (local_update e R col)))"
proof -
  let ?nw = "sq_norm col"
  have nw: "(norm2_real col)\<^sup>2 = ?nw" by (rule norm2_real_sq_norm)
  have sh: "length R = length col \<and> list_all (\<lambda>row. length row = length e) R"
    using R P Q by (simp add: list_all_iff)
  have Rp: "length (R ! p) = Q" if "p < P" for p using R that by simp
  let ?proj = "map2 (\<lambda>row w. map2 (\<lambda>r ev. (Re (cnj r * ev) + w) / ?nw) row e) R col"
  have proj: "?proj = map (\<lambda>p. map (\<lambda>k. (Re (cnj (R ! p ! k) * e ! k) + col ! p) / ?nw)
                                       [0..<Q]) [0..<P]"
  proof (rule nth_equalityI)
    show "length ?proj = length (map (\<lambda>p. map (\<lambda>k. (Re (cnj (R ! p ! k) * e ! k) + col ! p) / ?nw)
                                       [0..<Q]) [0..<P])"
      using R(1) P by simp
  next
    fix p assume "p < length ?proj"
    then have p: "p < P" using R(1) P by simp
    have "?proj ! p = map2 (\<lambda>r ev. (Re (cnj r * ev) + col ! p) / ?nw) (R ! p) e"
      using p R(1) P by simp
    also have "\<dots> = map (\<lambda>k. (Re (cnj (R ! p ! k) * e ! k) + col ! p) / ?nw) [0..<Q]"
      by (rule map2_upt [OF Rp [OF p] Q])
    finally show "?proj ! p = map (\<lambda>p. map (\<lambda>k. (Re (cnj (R ! p ! k) * e ! k) + col ! p) / ?nw)
                                       [0..<Q]) [0..<P] ! p"
      using p by simp
  qed
  have lp: "length ?proj = P" unfolding proj by simp
  have projp: "?proj ! p = map (\<lambda>k. (Re (cnj (R ! p ! k) * e ! k) + col ! p) / ?nw) [0..<Q]"
    if "p < P" for p
    unfolding proj using that by (simp only: nth_map_upt length_upt diff_zero add_0)
  have fin: "map (\<lambda>q. Some (mean_c (map2 (\<lambda>row pr. row ! q * of_real (mean_r pr)) R ?proj)))
                 [0..<length e] = map Some (local_update e R col)"
  proof -
    have mc: "mean_c (map2 (\<lambda>row pr. row ! q * of_real (mean_r pr)) R ?proj) =
        (\<Sum>p<P. R ! p ! q *
                  of_real ((\<Sum>k<Q. (Re (cnj (R ! p ! k) * e ! k) + col ! p) / ?nw) / real Q)) /
              of_nat P" for q
    proof -
      have "map2 (\<lambda>row pr. row ! q * of_real (mean_r pr)) R ?proj =
          map (\<lambda>p. R ! p ! q * of_real (mean_r (?proj ! p))) [0..<P]"
        by (rule map2_upt [OF R(1) lp])
      also have "\<dots> = map (\<lambda>p. R ! p ! q *
                  of_real ((\<Sum>k<Q. (Re (cnj (R ! p ! k) * e ! k) + col ! p) / ?nw) / real Q))
                [0..<P]"
      proof (rule map_cong [OF refl])
        fix p assume "p \<in> set [0..<P]"
        then have p: "p < P" by simp
        show "R ! p ! q * of_real (mean_r (?proj ! p)) =
            R ! p ! q *
            of_real ((\<Sum>k<Q. (Re (cnj (R ! p ! k) * e ! k) + col ! p) / ?nw) / real Q)"
          by (simp only: projp [OF p] mean_r_upt)
      qed
      finally show ?thesis by (simp only: mean_c_upt)
    qed
    have "map Some (local_update e R col) =
        map (\<lambda>q. Some ((\<Sum>p<P. R ! p ! q *
                  of_real ((\<Sum>k<Q. (Re (cnj (R ! p ! k) * e ! k) + col ! p) / ?nw) / real Q)) /
              of_nat P)) [0..<Q]"
      by (simp only: local_update_def map_map comp_def P Q)
    then show ?thesis by (simp only: Q mc)
  qed
  show ?thesis
  proof (cases "?nw = 0")
    case True
    then show ?thesis
      using sh Q by (simp add: get_update_lead_def wc em nw map_replicate_const)
  next
    case False
    then show ?thesis
      using sh fin by (simp add: get_update_lead_def wc em nw Let_def del: map_map)
  qed
qed

lemma regular_lead_mode:
  assumes "regular_lead c m P Q R E W patches diff"
  shows "eigen_mode E c m = Some (selected_mode E c m)" and "length (selected_mode E c m) = Q"
proof -
  from assms have c: "1 \<le> c" "c - 1 < length E" "m < length (E ! (c - 1))"
    and q: "\<forall>em\<in>set E. \<forall>s\<in>set em. length s = Q"
    by (simp_all add: regular_lead_def)
  show "eigen_mode E c m = Some (selected_mode E c m)" by (rule eigen_mode_regular [OF c])
  have "E ! (c - 1) \<in> set E" using c(2) by simp
  moreover have "E ! (c - 1) ! m \<in> set (E ! (c - 1))" using c(3) by simp
  ultimately show "length (selected_mode E c m) = Q" using q by (simp add: selected_mode_def)
qed

lemma regular_lead_column:
  assumes "regular_lead c m P Q R E W patches diff" "0 < P"
  shows "weight_column W c m = Some (selected_column W c m)"
proof -
  from assms have "W \<noteq> []" "\<forall>row\<in>set W. c < length row \<and> m < length (row ! c)"
    by (auto simp: regular_lead_def)
  then show ?thesis by (rule weight_column_regular)
qed

lemma regular_lead_column_length:
  assumes "regular_lead c m P Q R E W patches diff"
  shows "length (selected_column W c m) = P"
  using assms by (simp add: regular_lead_def selected_column_def)

lemma get_update_lead_regular:
  assumes reg: "regular_lead c m P Q R E W patches diff" and P: "0 < P"
  shows "get_update_lead c m R E W =
         Inr (Some (if sq_norm (selected_column W c m) = 0 then replicate Q None
                    else map Some (local_update (selected_mode E c m) R (selected_column W c m))))"
proof -
  from reg have R: "length R = P" "\<forall>row\<in>set R. length row = Q"
    by (simp_all add: regular_lead_def)
  show ?thesis
    by (rule get_update_lead_values [OF regular_lead_column [OF reg P] regular_lead_mode(1) [OF reg]
          regular_lead_column_length [OF reg] regular_lead_mode(2) [OF reg] R])
qed

lemma sequence_e_map_Inr:
  "(\<And>x. x \<in> set xs \<Longrightarrow> f x = Inr (g x)) \<Longrightarrow> sequence_e (map f xs) = Inr (map g xs)"
  by (induction xs) simp_all

lemma zip3_upt:
  "length ys = length xs \<Longrightarrow> length zs = length xs \<Longrightarrow>
   zip xs (zip ys zs) = map (\<lambda>i. (xs ! i, ys ! i, zs ! i)) [0..<length xs]"
  by (intro nth_equalityI) simp_all

lemma concat_map_singleton: "concat (map (\<lambda>x. [f x]) xs) = map f xs"
  by (induction xs) simp_all

lemma norm_weights_regular:
  assumes "\<forall>l<length W. weight_column (W ! l) c m = Some (col l)"
  shows "norm_weights W c m = map (\<lambda>l. sq_norm (col l)) [0..<length W]"
proof -
  have "map (\<lambda>w. case weight_column w c m of None \<Rightarrow> [] | Some col \<Rightarrow> [(norm2_real col)\<^sup>2]) W =
      map (\<lambda>l. [sq_norm (col l)]) [0..<length W]"
    using assms by (intro nth_equalityI) (simp_all add: norm2_real_sq_norm)
  then show ?thesis by (simp only: norm_weights_def concat_map_singleton)
qed

lemma norm_weights_empty:
  assumes "\<forall>w\<in>set W. w = []"
  shows "norm_weights W c m = []"
proof -
  have "map (\<lambda>w. case weight_column w c m of None \<Rightarrow> [] | Some col \<Rightarrow> [(norm2_real col)\<^sup>2]) W =
      map (\<lambda>w. []) W"
    using assms by (intro map_cong refl) (auto simp: weight_column_def)
  then show ?thesis by (simp add: norm_weights_def)
qed

lemma sq_norm_Nil [simp]: "sq_norm [] = 0"
  by (simp add: sq_norm_def)

lemma get_update_regular:
  assumes reg: "regular_worker c m L P Q R E W patches diff"
  shows "get_update c m R E W =
     (if \<forall>l<L. sq_norm (selected_column (W ! l) c m) = 0 then Inl WeightsAllZero
      else Inr (map (\<lambda>l. Some (if sq_norm (selected_column (W ! l) c m) = 0 then replicate Q None
                               else map Some (local_update (selected_mode (E ! l) c m) (R ! l)
                                                (selected_column (W ! l) c m))))
                    [0..<L]))"
proof -
  from reg have len: "length R = L" "length E = L" "length W = L"
    and rl: "\<And>l. l < L \<Longrightarrow> regular_lead c m P Q (R ! l) (E ! l) (W ! l) (patches ! l) (diff ! l)"
    by (simp_all add: regular_worker_def)
  show ?thesis
  proof (cases "P = 0")
    case True
    have e: "W ! l = []" if "l < L" for l
      using rl [OF that] True by (simp add: regular_lead_def)
    then have "\<forall>w\<in>set W. w = []" using len(3) by (auto simp: in_set_conv_nth)
    then have "norm_weights W c m = []" by (rule norm_weights_empty)
    moreover have "\<forall>l<L. sq_norm (selected_column (W ! l) c m) = 0"
      using e by (simp add: selected_column_def)
    ultimately show ?thesis by (simp add: get_update_def)
  next
    case False
    then have P: "0 < P" by simp
    have wc: "\<forall>l<length W. weight_column (W ! l) c m = Some (selected_column (W ! l) c m)"
      using regular_lead_column [OF rl P] len(3) by simp
    have nw: "norm_weights W c m = map (\<lambda>l. sq_norm (selected_column (W ! l) c m)) [0..<L]"
      using norm_weights_regular [OF wc] len(3) by simp
    have all: "list_all (\<lambda>x. x = 0) (norm_weights W c m) \<longleftrightarrow>
        (\<forall>l<L. sq_norm (selected_column (W ! l) c m) = 0)"
      unfolding nw by (auto simp: list_all_iff)
    have z: "zip R (zip E W) = map (\<lambda>l. (R ! l, E ! l, W ! l)) [0..<L]"
      using zip3_upt [of E R W] len by simp
    have sq: "sequence_e (map (\<lambda>(R, eigen_probe, weights). get_update_lead c m R eigen_probe weights)
                           (zip R (zip E W))) =
        Inr (map (\<lambda>l. Some (if sq_norm (selected_column (W ! l) c m) = 0 then replicate Q None
                               else map Some (local_update (selected_mode (E ! l) c m) (R ! l)
                                                (selected_column (W ! l) c m))))
                    [0..<L])"
      unfolding z map_map comp_def prod.case
      by (rule sequence_e_map_Inr) (simp add: get_update_lead_regular [OF rl P])
    show ?thesis
      unfolding get_update_def all sq using len by simp
  qed
qed

lemma norm_weights_worker:
  assumes reg: "regular_worker c m L P Q R E W patches diff"
  shows "list_all (\<lambda>x. x = 0) (norm_weights W c m) \<longleftrightarrow>
         (\<forall>l<L. sq_norm (selected_column (W ! l) c m) = 0)"
    and "\<not> (\<forall>l<L. sq_norm (selected_column (W ! l) c m) = 0) \<Longrightarrow>
         0 \<in> set (norm_weights W c m) \<longleftrightarrow> (\<exists>l<L. sq_norm (selected_column (W ! l) c m) = 0)"
proof -
  from reg have len: "length W = L"
    and rl: "\<And>l. l < L \<Longrightarrow> regular_lead c m P Q (R ! l) (E ! l) (W ! l) (patches ! l) (diff ! l)"
    by (simp_all add: regular_worker_def)
  have emp: "W ! l = []" if "P = 0" "l < L" for l
    using rl [OF that(2)] that(1) by (simp add: regular_lead_def)
  have zero: "\<forall>l<L. sq_norm (selected_column (W ! l) c m) = 0" if "P = 0"
    using emp [OF that] by (simp add: selected_column_def)
  have nw: "norm_weights W c m = map (\<lambda>l. sq_norm (selected_column (W ! l) c m)) [0..<L]"
    if P: "0 < P"
  proof -
    have wc: "\<forall>l<length W. weight_column (W ! l) c m = Some (selected_column (W ! l) c m)"
      using regular_lead_column [OF rl P] len by simp
    show ?thesis using norm_weights_regular [OF wc] len by simp
  qed
  show "list_all (\<lambda>x. x = 0) (norm_weights W c m) \<longleftrightarrow>
        (\<forall>l<L. sq_norm (selected_column (W ! l) c m) = 0)"
  proof (cases "P = 0")
    case True
    have "\<forall>w\<in>set W. w = []" using emp [OF True] len by (auto simp: in_set_conv_nth)
    then have "norm_weights W c m = []" by (rule norm_weights_empty)
    with zero [OF True] show ?thesis by simp
  next
    case False
    then have "0 < P" by simp
    from nw [OF this] show ?thesis by (auto simp: list_all_iff)
  qed
  show "0 \<in> set (norm_weights W c m) \<longleftrightarrow> (\<exists>l<L. sq_norm (selected_column (W ! l) c m) = 0)"
    if "\<not> (\<forall>l<L. sq_norm (selected_column (W ! l) c m) = 0)"
  proof -
    from that zero have "0 < P" by auto
    from nw [OF this] show ?thesis by auto
  qed
qed

lemma list_case_hd: "xs \<noteq> [] \<Longrightarrow> (case xs of [] \<Rightarrow> a | x # _ \<Rightarrow> f x) = f (hd xs)"
  by (cases xs) simp_all

lemma hd_map_upt: "0 < n \<Longrightarrow> hd (map f [0..<n]) = f 0"
  by (simp add: hd_map upt_conv_Cons)

lemma reduce_mean_update_lead_Some:
  assumes N: "0 < N" and len: "\<forall>w<N. length (F w) = Q"
  shows "reduce_mean_update_lead (map (\<lambda>w. Some (F w)) [0..<N]) =
         Inr (Some (map (\<lambda>q. map_option mean_c (those (map (\<lambda>w. F w ! q) [0..<N]))) [0..<Q]))"
proof -
  have a: "\<not> list_all (\<lambda>u. u = None) (map (\<lambda>w. Some (F w)) [0..<N])"
    using N by (auto simp: list_all_iff)
  have t: "those (map (\<lambda>w. Some (F w)) [0..<N]) = Some (map F [0..<N])"
    using those_map_Some [of "map F [0..<N]"] by (simp add: comp_def)
  have h: "hd (map F [0..<N]) = F 0" by (rule hd_map_upt [OF N])
  have l: "list_all (\<lambda>v. length v = length (F 0)) (map F [0..<N])"
    using len N by (simp add: list_all_iff)
  have q: "length (F 0) = Q" using len N by simp
  show ?thesis
    unfolding reduce_mean_update_lead_def using a l
    by (simp add: t h q comp_def)
qed

lemma reduce_mean_update_regular:
  assumes N: "0 < N" and len: "\<forall>w<N. \<forall>l<L. length (F w l) = Q"
  shows "reduce_mean_update (map (\<lambda>w. map (\<lambda>l. Some (F w l)) [0..<L]) [0..<N]) =
         Inr (map (\<lambda>l. Some (map (\<lambda>q. map_option mean_c (those (map (\<lambda>w. F w l ! q) [0..<N])))
                               [0..<Q])) [0..<L])"
proof -
  define us where "us = map (\<lambda>w. map (\<lambda>l. Some (F w l)) [0..<L]) [0..<N]"
  have ne: "us \<noteq> []" using N by (simp add: us_def)
  have h: "hd us = map (\<lambda>l. Some (F 0 l)) [0..<L]" unfolding us_def by (rule hd_map_upt [OF N])
  have l: "list_all (\<lambda>u. length u = L) us" by (simp add: us_def list_all_iff)
  have col: "map (\<lambda>u. u ! l) us = map (\<lambda>w. Some (F w l)) [0..<N]" if "l < L" for l
    using that by (simp add: us_def)
  have sq: "sequence_e (map (\<lambda>l. reduce_mean_update_lead (map (\<lambda>u. u ! l) us)) [0..<L]) =
      Inr (map (\<lambda>l. Some (map (\<lambda>q. map_option mean_c (those (map (\<lambda>w. F w l ! q) [0..<N])))
                               [0..<Q])) [0..<L])"
  proof (rule sequence_e_map_Inr)
    fix l assume "l \<in> set [0..<L]"
    then have l: "l < L" by simp
    have "\<forall>w<N. length (F w l) = Q" using len l by simp
    from reduce_mean_update_lead_Some [OF N this]
    show "reduce_mean_update_lead (map (\<lambda>u. u ! l) us) =
        Inr (Some (map (\<lambda>q. map_option mean_c (those (map (\<lambda>w. F w l ! q) [0..<N]))) [0..<Q]))"
      by (simp only: col [OF l])
  qed
  show ?thesis
    unfolding us_def [symmetric] reduce_mean_update_def list_case_hd [OF ne] h
    using l sq by simp
qed

lemma those_length: "those xs = Some ys \<Longrightarrow> length ys = length xs"
proof (induction xs arbitrary: ys)
  case Nil
  then show ?case by simp
next
  case (Cons x xs)
  then show ?case by (cases x; cases "those xs") auto
qed

lemma new_mode_lead_regular:
  assumes em: "eigen_mode E c m = Some e" and Q: "length e = Q" "length G = Q"
  shows "new_mode_lead c m \<beta> E (Some G) =
         Inr (Some (if \<exists>u. those G = Some u \<and> mnorm u \<noteq> 0 \<and> mnorm (relaxed_mode \<beta> e u) \<noteq> 0
                    then map Some (unit_mode (relaxed_mode \<beta> e (the (those G))))
                    else replicate Q None))"
proof (cases "those G")
  case None
  then show ?thesis
    using Q by (simp add: new_mode_lead_def em map_replicate_const)
next
  case (Some u)
  have lu: "length u = Q" using those_length [OF Some] Q(2) by simp
  have e1: "map2 (\<lambda>ev uv. ev + of_real \<beta> * uv / of_real (mnorm u)) e u = relaxed_mode \<beta> e u"
    unfolding relaxed_mode_def Q(1) by (rule map2_upt [OF Q(1) lu])
  have un: "map (\<lambda>ev. Some (ev / of_real (mnorm e1))) e1 = map Some (unit_mode e1)" for e1
    by (simp add: unit_mode_def)
  show ?thesis
    using Q by (simp add: new_mode_lead_def em Some Let_def e1 un map_replicate_const del: map_map)
qed

lemma get_d_lead_regular:
  assumes Q: "0 < Q" "length e2 = Q" and P: "0 < P"
    and pa: "length patches = P" "\<forall>row\<in>set patches. length row = Q"
    and di: "length diff = P" "\<forall>row\<in>set diff. length row = Q"
  shows "get_d_lead c m patches diff E (Some (map Some e2)) =
         Inr (E[c - 1 := (E ! (c - 1))[m := e2]],
              map (\<lambda>p. Some (overlap (diff ! p) (patches ! p) e2)) [0..<P],
              map (\<lambda>p. Some (mode_energy (patches ! p) e2)) [0..<P],
              Some ((\<Sum>p<P. mode_energy (patches ! p) e2) / real P))"
proof -
  have ne: "e2 \<noteq> []" using Q by auto
  have sh: "\<not> (length diff \<noteq> length patches \<or>
                \<not> list_all (\<lambda>row. length row = length e2) patches \<or>
                \<not> list_all (\<lambda>row. length row = length e2) diff)"
    using pa di Q(2) by (simp add: list_all_iff)
  let ?phi = "map (\<lambda>row. map2 (\<lambda>pv ev. pv * ev) row e2) patches"
  have lphi: "length ?phi = P" using pa(1) by simp
  have phi: "?phi ! p = map (\<lambda>q. patches ! p ! q * e2 ! q) [0..<Q]" if "p < P" for p
  proof -
    have "length (patches ! p) = Q" using pa that by simp
    from map2_upt [OF this Q(2)] show ?thesis using that pa(1) by simp
  qed
  have n: "map2 (\<lambda>drow prow. if e2 = [] then None
                               else Some (mean_r (map2 (\<lambda>dv pv. Re (dv * cnj pv)) drow prow)))
             diff ?phi = map (\<lambda>p. Some (overlap (diff ! p) (patches ! p) e2)) [0..<P]"
  proof -
    have "map2 (\<lambda>drow prow. if e2 = [] then None
                               else Some (mean_r (map2 (\<lambda>dv pv. Re (dv * cnj pv)) drow prow)))
             diff ?phi =
        map (\<lambda>p. Some (mean_r (map2 (\<lambda>dv pv. Re (dv * cnj pv)) (diff ! p) (?phi ! p)))) [0..<P]"
      using ne by (simp only: map2_upt [OF di(1) lphi] if_False)
    also have "\<dots> = map (\<lambda>p. Some (overlap (diff ! p) (patches ! p) e2)) [0..<P]"
    proof (rule map_cong [OF refl])
      fix p assume "p \<in> set [0..<P]"
      then have p: "p < P" by simp
      have ld: "length (diff ! p) = Q" using di p by simp
      have lq: "length (?phi ! p) = Q" unfolding phi [OF p] by simp
      have phiq: "?phi ! p ! q = patches ! p ! q * e2 ! q" if "q < Q" for q
        unfolding phi [OF p] using that by simp
      have "map2 (\<lambda>dv pv. Re (dv * cnj pv)) (diff ! p) (?phi ! p) =
          map (\<lambda>q. Re (diff ! p ! q * cnj (?phi ! p ! q))) [0..<Q]"
        by (rule map2_upt [OF ld lq])
      also have "\<dots> = map (\<lambda>q. Re (diff ! p ! q * cnj (patches ! p ! q * e2 ! q))) [0..<Q]"
      proof (rule map_cong [OF refl])
        fix q assume "q \<in> set [0..<Q]"
        then have "q < Q" by simp
        then show "Re (diff ! p ! q * cnj (?phi ! p ! q)) =
            Re (diff ! p ! q * cnj (patches ! p ! q * e2 ! q))"
          by (simp only: phiq)
      qed
      finally have "map2 (\<lambda>dv pv. Re (dv * cnj pv)) (diff ! p) (?phi ! p) =
          map (\<lambda>q. Re (diff ! p ! q * cnj (patches ! p ! q * e2 ! q))) [0..<Q]" .
      then show "Some (mean_r (map2 (\<lambda>dv pv. Re (dv * cnj pv)) (diff ! p) (?phi ! p))) =
          Some (overlap (diff ! p) (patches ! p) e2)"
        by (simp only: mean_r_upt overlap_def Q(2))
    qed
    finally show ?thesis .
  qed
  have d: "map (\<lambda>prow. if e2 = [] then None else Some (mean_r (map (\<lambda>pv. (cmod pv)\<^sup>2) prow))) ?phi =
      map (\<lambda>p. Some (mode_energy (patches ! p) e2)) [0..<P]"
  proof (rule nth_equalityI)
    show "length (map (\<lambda>prow. if e2 = [] then None
                               else Some (mean_r (map (\<lambda>pv. (cmod pv)\<^sup>2) prow))) ?phi) =
        length (map (\<lambda>p. Some (mode_energy (patches ! p) e2)) [0..<P])"
      using pa(1) by simp
  next
    fix p
    assume "p < length (map (\<lambda>prow. if e2 = [] then None
                               else Some (mean_r (map (\<lambda>pv. (cmod pv)\<^sup>2) prow))) ?phi)"
    then have p: "p < P" using pa(1) by simp
    have "map (\<lambda>pv. (cmod pv)\<^sup>2) (?phi ! p) = map (\<lambda>q. (cmod (patches ! p ! q * e2 ! q))\<^sup>2) [0..<Q]"
      unfolding phi [OF p] by simp
    then have "mean_r (map (\<lambda>pv. (cmod pv)\<^sup>2) (?phi ! p)) = mode_energy (patches ! p) e2"
      by (simp only: mean_r_upt mode_energy_def Q(2))
    then show "map (\<lambda>prow. if e2 = [] then None
                               else Some (mean_r (map (\<lambda>pv. (cmod pv)\<^sup>2) prow))) ?phi ! p =
        map (\<lambda>p. Some (mode_energy (patches ! p) e2)) [0..<P] ! p"
      using p ne lphi by simp
  qed
  have dm: "(case those (map (\<lambda>p. Some (mode_energy (patches ! p) e2)) [0..<P]) of
               None \<Rightarrow> None
             | Some ds \<Rightarrow> if ds = [] then None else Some (mean_r ds)) =
      Some ((\<Sum>p<P. mode_energy (patches ! p) e2) / real P)"
  proof -
    have "those (map (\<lambda>p. Some (mode_energy (patches ! p) e2)) [0..<P]) =
        Some (map (\<lambda>p. mode_energy (patches ! p) e2) [0..<P])"
      using those_map_Some [of "map (\<lambda>p. mode_energy (patches ! p) e2) [0..<P]"]
      by (simp add: comp_def)
    then show ?thesis using P by (simp add: mean_r_upt)
  qed
  show ?thesis
    unfolding get_d_lead_def option.case those_map_Some Let_def n d dm
    using sh by (simp only: if_False)
qed

lemma length_unit_mode [simp]: "length (unit_mode e) = length e"
  by (simp add: unit_mode_def)

lemma length_relaxed_mode [simp]: "length (relaxed_mode \<beta> e u) = length e"
  by (simp add: relaxed_mode_def)

lemma py_assert_True [simp]: "py_assert True rest = rest"
  by (simp add: py_assert_def)

lemma py_assert_False [simp]: "py_assert False rest = Inl AssertionError"
  by (simp add: py_assert_def)

lemma get_d_regular:
  assumes reg: "regular_worker c m L P Q R E W patches diff" and Q: "0 < Q" and P: "0 < P"
    and G: "\<forall>l<L. length (G l) = Q"
  shows "get_d c m \<beta> patches diff E (map (\<lambda>l. Some (G l)) [0..<L]) =
     (if \<forall>l<L. \<exists>u. those (G l) = Some u \<and> mnorm u \<noteq> 0 \<and>
                    mnorm (relaxed_mode \<beta> (selected_mode (E ! l) c m) u) \<noteq> 0
      then Inr (map (\<lambda>l. (E ! l)[c - 1 := (E ! l ! (c - 1))
                        [m := unit_mode (relaxed_mode \<beta> (selected_mode (E ! l) c m) (the (those (G l))))]])
                    [0..<L],
                map (\<lambda>l. map (\<lambda>p. Some (overlap (diff ! l ! p) (patches ! l ! p)
                          (unit_mode (relaxed_mode \<beta> (selected_mode (E ! l) c m) (the (those (G l)))))))
                             [0..<P]) [0..<L],
                map (\<lambda>l. map (\<lambda>p. Some (mode_energy (patches ! l ! p)
                          (unit_mode (relaxed_mode \<beta> (selected_mode (E ! l) c m) (the (those (G l)))))))
                             [0..<P]) [0..<L],
                map (\<lambda>l. Some ((\<Sum>p<P. mode_energy (patches ! l ! p)
                          (unit_mode (relaxed_mode \<beta> (selected_mode (E ! l) c m) (the (those (G l))))))
                                   / real P)) [0..<L])
      else Inl AssertionError)"
proof -
  define ok where "ok = (\<lambda>l. \<exists>u. those (G l) = Some u \<and> mnorm u \<noteq> 0 \<and>
                    mnorm (relaxed_mode \<beta> (selected_mode (E ! l) c m) u) \<noteq> 0)"
  define e2 where "e2 = (\<lambda>l. unit_mode (relaxed_mode \<beta> (selected_mode (E ! l) c m) (the (those (G l)))))"
  define M where "M = (\<lambda>l. if ok l then map Some (e2 l) else replicate Q None)"
  from reg have len: "length E = L" "length patches = L" "length diff = L"
    and rl: "\<And>l. l < L \<Longrightarrow> regular_lead c m P Q (R ! l) (E ! l) (W ! l) (patches ! l) (diff ! l)"
    by (simp_all add: regular_worker_def)
  have le2: "length (e2 l) = Q" if "l < L" for l
    using regular_lead_mode(2) [OF rl [OF that]] by (simp add: e2_def)
  have z: "zip E (map (\<lambda>l. Some (G l)) [0..<L]) = map (\<lambda>l. (E ! l, Some (G l))) [0..<L]"
    using len(1) by (intro nth_equalityI) simp_all
  have s1: "sequence_e (map (\<lambda>(eigen_probe, update). new_mode_lead c m \<beta> eigen_probe update)
                           (zip E (map (\<lambda>l. Some (G l)) [0..<L]))) =
      Inr (map (\<lambda>l. Some (M l)) [0..<L])"
    unfolding z map_map comp_def prod.case
  proof (rule sequence_e_map_Inr)
    fix l assume "l \<in> set [0..<L]"
    then have l: "l < L" by simp
    have gl: "length (G l) = Q" using G l by simp
    show "new_mode_lead c m \<beta> (E ! l) (Some (G l)) = Inr (Some (M l))"
      unfolding M_def ok_def e2_def
      by (rule new_mode_lead_regular [OF regular_lead_mode [OF rl [OF l]] gl])
  qed
  have fin_eq: "list_all (\<lambda>mode. case mode of None \<Rightarrow> True | Some e \<Rightarrow> list_all (\<lambda>z. z \<noteq> None) e)
              (map (\<lambda>l. Some (M l)) [0..<L]) \<longleftrightarrow> (\<forall>l<L. ok l)"
  proof -
    have "list_all (\<lambda>z. z \<noteq> None) (M l) \<longleftrightarrow> ok l" for l
      using Q by (auto simp: M_def list_all_iff)
    then show ?thesis by (auto simp: list_all_iff)
  qed
  have cond: "length (map (\<lambda>l. Some (G l)) [0..<L]) = length E \<and> length patches = length E \<and>
      length diff = length E"
    using len by simp
  have g: "get_d c m \<beta> patches diff E (map (\<lambda>l. Some (G l)) [0..<L]) =
      py_assert (\<forall>l<L. ok l)
        (ebind (sequence_e (map (\<lambda>(patches, diff, eigen_probe, mode).
                                  get_d_lead c m patches diff eigen_probe mode)
                 (zip patches (zip diff (zip E (map (\<lambda>l. Some (M l)) [0..<L]))))))
           (\<lambda>results. Inr (map fst results, map (fst \<circ> snd) results,
                           map (fst \<circ> snd \<circ> snd) results, map (snd \<circ> snd \<circ> snd) results)))"
    unfolding get_d_def by (simp only: cond if_True s1 ebind_Inr fin_eq simp_thms)
  have okeq: "(\<forall>l<L. \<exists>u. those (G l) = Some u \<and> mnorm u \<noteq> 0 \<and>
                    mnorm (relaxed_mode \<beta> (selected_mode (E ! l) c m) u) \<noteq> 0) \<longleftrightarrow> (\<forall>l<L. ok l)"
    by (simp add: ok_def)
  show ?thesis
  proof (cases "\<forall>l<L. ok l")
    case False
    then have f: "(\<forall>l<L. ok l) = False" by simp
    show ?thesis
      unfolding okeq g f if_False by (rule py_assert_False)
  next
    case True
    have Ms: "map (\<lambda>l. Some (M l)) [0..<L] = map (\<lambda>l. Some (map Some (e2 l))) [0..<L]"
      using True by (intro map_cong refl) (simp add: M_def)
    have z4: "zip patches (zip diff (zip E (map (\<lambda>l. Some (map Some (e2 l))) [0..<L]))) =
        map (\<lambda>l. (patches ! l, diff ! l, E ! l, Some (map Some (e2 l)))) [0..<L]"
      using len by (intro nth_equalityI) simp_all
    have s2: "sequence_e (map (\<lambda>(patches, diff, eigen_probe, mode).
                                  get_d_lead c m patches diff eigen_probe mode)
                 (zip patches (zip diff (zip E (map (\<lambda>l. Some (map Some (e2 l))) [0..<L]))))) =
        Inr (map (\<lambda>l. ((E ! l)[c - 1 := (E ! l ! (c - 1))[m := e2 l]],
                        map (\<lambda>p. Some (overlap (diff ! l ! p) (patches ! l ! p) (e2 l))) [0..<P],
                        map (\<lambda>p. Some (mode_energy (patches ! l ! p) (e2 l))) [0..<P],
                        Some ((\<Sum>p<P. mode_energy (patches ! l ! p) (e2 l)) / real P))) [0..<L])"
      unfolding z4 map_map comp_def prod.case
    proof (rule sequence_e_map_Inr)
      fix l assume "l \<in> set [0..<L]"
      then have l: "l < L" by simp
      from rl [OF l] have pa: "length (patches ! l) = P" "\<forall>row\<in>set (patches ! l). length row = Q"
        and di: "length (diff ! l) = P" "\<forall>row\<in>set (diff ! l). length row = Q"
        by (simp_all add: regular_lead_def)
      show "get_d_lead c m (patches ! l) (diff ! l) (E ! l) (Some (map Some (e2 l))) =
          Inr ((E ! l)[c - 1 := (E ! l ! (c - 1))[m := e2 l]],
               map (\<lambda>p. Some (overlap (diff ! l ! p) (patches ! l ! p) (e2 l))) [0..<P],
               map (\<lambda>p. Some (mode_energy (patches ! l ! p) (e2 l))) [0..<P],
               Some ((\<Sum>p<P. mode_energy (patches ! l ! p) (e2 l)) / real P))"
        by (rule get_d_lead_regular [OF Q le2 [OF l] P pa di])
    qed
    have r: "get_d c m \<beta> patches diff E (map (\<lambda>l. Some (G l)) [0..<L]) =
        Inr (map (\<lambda>l. (E ! l)[c - 1 := (E ! l ! (c - 1))[m := e2 l]]) [0..<L],
             map (\<lambda>l. map (\<lambda>p. Some (overlap (diff ! l ! p) (patches ! l ! p) (e2 l))) [0..<P]) [0..<L],
             map (\<lambda>l. map (\<lambda>p. Some (mode_energy (patches ! l ! p) (e2 l))) [0..<P]) [0..<L],
             map (\<lambda>l. Some ((\<Sum>p<P. mode_energy (patches ! l ! p) (e2 l)) / real P)) [0..<L])"
      unfolding g Ms s2 using True by (simp add: comp_def)
    have t: "(\<forall>l<L. ok l) = True" using True by simp
    show ?thesis
      unfolding okeq t if_True by (rule r [unfolded e2_def])
  qed
qed

lemma reduce_mean_d_regular:
  assumes N: "0 < N"
  shows "reduce_mean_d (map (\<lambda>w. map (\<lambda>l. Some (D w l)) [0..<L]) [0..<N]) =
         Inr (map (\<lambda>l. Some ((\<Sum>w<N. D w l) / real N)) [0..<L])"
proof -
  define ds where "ds = map (\<lambda>w. map (\<lambda>l. Some (D w l)) [0..<L]) [0..<N]"
  have ne: "ds \<noteq> []" using N by (simp add: ds_def)
  have h: "hd ds = map (\<lambda>l. Some (D 0 l)) [0..<L]" unfolding ds_def by (rule hd_map_upt [OF N])
  have l: "list_all (\<lambda>d. length d = L) ds" by (simp add: ds_def list_all_iff)
  have col: "map (\<lambda>d. d ! l) ds = map Some (map (\<lambda>w. D w l) [0..<N])" if "l < L" for l
    using that by (simp add: ds_def)
  have "map (\<lambda>l. map_option mean_r (those (map (\<lambda>d. d ! l) ds))) [0..<L] =
      map (\<lambda>l. Some ((\<Sum>w<N. D w l) / real N)) [0..<L]"
  proof (rule map_cong [OF refl])
    fix l assume "l \<in> set [0..<L]"
    then have "l < L" by simp
    then show "map_option mean_r (those (map (\<lambda>d. d ! l) ds)) = Some ((\<Sum>w<N. D w l) / real N)"
      by (simp only: col those_map_Some option.map mean_r_upt)
  qed
  then show ?thesis
    unfolding ds_def [symmetric] reduce_mean_d_def list_case_hd [OF ne] h
    using l by simp
qed

lemma weight_update_lead_regular:
  assumes wc: "weight_column W c m = Some col" and P: "length col = P"
  shows "weight_update_lead c m (map (\<lambda>p. Some (nv p)) [0..<P]) (map (\<lambda>p. Some (dv p)) [0..<P])
           (Some dm) W =
         Inr (map (\<lambda>p. if dv p + 0.1 * dm = 0 then None else Some (nv p / (dv p + 0.1 * dm)))
                  [0..<P])"
proof -
  have "map2 (\<lambda>nv dv. case (nv, dv, Some dm) of
                          (Some nv, Some dv, Some dm) \<Rightarrow>
                            if dv + 0.1 * dm = 0 then None else Some (nv / (dv + 0.1 * dm))
                        | _ \<Rightarrow> None)
          (map (\<lambda>p. Some (nv p)) [0..<P]) (map (\<lambda>p. Some (dv p)) [0..<P]) =
      map (\<lambda>p. if dv p + 0.1 * dm = 0 then None else Some (nv p / (dv p + 0.1 * dm))) [0..<P]"
    by (intro nth_equalityI) simp_all
  then show ?thesis
    using P by (simp add: weight_update_lead_def wc)
qed

lemma get_weights_mean_regular:
  assumes reg: "regular_worker c m L P Q R E W patches diff" and P: "0 < P"
  shows "get_weights_mean c m (map (\<lambda>l. map (\<lambda>p. Some (nv l p)) [0..<P]) [0..<L])
           (map (\<lambda>l. map (\<lambda>p. Some (dv l p)) [0..<P]) [0..<L]) (map (\<lambda>l. Some (dm l)) [0..<L]) W =
     (if \<forall>l<L. \<forall>p<P. dv l p + 0.1 * dm l \<noteq> 0
      then Inr (map (\<lambda>l. map (\<lambda>p. (W ! l ! p)[c := (W ! l ! p ! c)
                         [m := W ! l ! p ! c ! m + nv l p / (dv l p + 0.1 * dm l)]]) [0..<P]) [0..<L])
      else Inl AssertionError)"
proof -
  define wu where "wu = (\<lambda>l. map (\<lambda>p. if dv l p + 0.1 * dm l = 0 then None
                                     else Some (nv l p / (dv l p + 0.1 * dm l))) [0..<P])"
  from reg have len: "length W = L"
    and rl: "\<And>l. l < L \<Longrightarrow> regular_lead c m P Q (R ! l) (E ! l) (W ! l) (patches ! l) (diff ! l)"
    by (simp_all add: regular_worker_def)
  have wc: "weight_column (W ! l) c m = Some (selected_column (W ! l) c m)" if "l < L" for l
    by (rule regular_lead_column [OF rl [OF that] P])
  have lw: "length (W ! l) = P" if "l < L" for l
    using rl [OF that] by (simp add: regular_lead_def)
  have z: "zip (map (\<lambda>l. map (\<lambda>p. Some (nv l p)) [0..<P]) [0..<L])
             (zip (map (\<lambda>l. map (\<lambda>p. Some (dv l p)) [0..<P]) [0..<L])
                (zip (map (\<lambda>l. Some (dm l)) [0..<L]) W)) =
      map (\<lambda>l. (map (\<lambda>p. Some (nv l p)) [0..<P], map (\<lambda>p. Some (dv l p)) [0..<P], Some (dm l), W ! l))
          [0..<L]"
    using len by (intro nth_equalityI) simp_all
  have s1: "sequence_e (map (\<lambda>(n, d, d_mean, weights). weight_update_lead c m n d d_mean weights)
             (zip (map (\<lambda>l. map (\<lambda>p. Some (nv l p)) [0..<P]) [0..<L])
             (zip (map (\<lambda>l. map (\<lambda>p. Some (dv l p)) [0..<P]) [0..<L])
                (zip (map (\<lambda>l. Some (dm l)) [0..<L]) W)))) = Inr (map wu [0..<L])"
    unfolding z map_map comp_def prod.case
  proof (rule sequence_e_map_Inr)
    fix l assume "l \<in> set [0..<L]"
    then have l: "l < L" by simp
    show "weight_update_lead c m (map (\<lambda>p. Some (nv l p)) [0..<P]) (map (\<lambda>p. Some (dv l p)) [0..<P])
        (Some (dm l)) (W ! l) = Inr (wu l)"
      unfolding wu_def
      by (rule weight_update_lead_regular [OF wc [OF l]])
         (simp add: selected_column_def lw [OF l])
  qed
  have fin_eq: "list_all (list_all (\<lambda>x. x \<noteq> None)) (map wu [0..<L]) \<longleftrightarrow>
      (\<forall>l<L. \<forall>p<P. dv l p + 0.1 * dm l \<noteq> 0)"
    by (auto simp: list_all_length wu_def)
  have cond: "length (map (\<lambda>l. map (\<lambda>p. Some (nv l p)) [0..<P]) [0..<L]) = length W \<and>
      length (map (\<lambda>l. map (\<lambda>p. Some (dv l p)) [0..<P]) [0..<L]) = length W \<and>
      length (map (\<lambda>l. Some (dm l)) [0..<L]) = length W"
    using len by simp
  have g: "get_weights_mean c m (map (\<lambda>l. map (\<lambda>p. Some (nv l p)) [0..<P]) [0..<L])
           (map (\<lambda>l. map (\<lambda>p. Some (dv l p)) [0..<P]) [0..<L]) (map (\<lambda>l. Some (dm l)) [0..<L]) W =
      py_assert (\<forall>l<L. \<forall>p<P. dv l p + 0.1 * dm l \<noteq> 0)
        (Inr (map2 (\<lambda>weights wu.
                     if weight_column weights c m = None then weights
                     else map2 (\<lambda>row x. case x of
                                           None \<Rightarrow> row
                                         | Some v \<Rightarrow> row[c := (row ! c)[m := row ! c ! m + v]])
                               weights wu)
                  W (map wu [0..<L])))"
    unfolding get_weights_mean_def by (simp only: cond if_True s1 ebind_Inr fin_eq simp_thms)
  show ?thesis
  proof (cases "\<forall>l<L. \<forall>p<P. dv l p + 0.1 * dm l \<noteq> 0")
    case False
    then have f: "(\<forall>l<L. \<forall>p<P. dv l p + 0.1 * dm l \<noteq> 0) = False" by simp
    show ?thesis unfolding g f if_False by (rule py_assert_False)
  next
    case True
    then have t: "(\<forall>l<L. \<forall>p<P. dv l p + 0.1 * dm l \<noteq> 0) = True" by simp
    have "map2 (\<lambda>weights wu.
                     if weight_column weights c m = None then weights
                     else map2 (\<lambda>row x. case x of
                                           None \<Rightarrow> row
                                         | Some v \<Rightarrow> row[c := (row ! c)[m := row ! c ! m + v]])
                               weights wu)
                  W (map wu [0..<L]) =
        map (\<lambda>l. map (\<lambda>p. (W ! l ! p)[c := (W ! l ! p ! c)
                         [m := W ! l ! p ! c ! m + nv l p / (dv l p + 0.1 * dm l)]]) [0..<P]) [0..<L]"
    proof (rule nth_equalityI)
      show "length (map2 (\<lambda>weights wu.
                     if weight_column weights c m = None then weights
                     else map2 (\<lambda>row x. case x of
                                           None \<Rightarrow> row
                                         | Some v \<Rightarrow> row[c := (row ! c)[m := row ! c ! m + v]])
                               weights wu)
                  W (map wu [0..<L])) =
          length (map (\<lambda>l. map (\<lambda>p. (W ! l ! p)[c := (W ! l ! p ! c)
                         [m := W ! l ! p ! c ! m + nv l p / (dv l p + 0.1 * dm l)]]) [0..<P]) [0..<L])"
        using len by simp
    next
      fix l
      assume "l < length (map2 (\<lambda>weights wu.
                     if weight_column weights c m = None then weights
                     else map2 (\<lambda>row x. case x of
                                           None \<Rightarrow> row
                                         | Some v \<Rightarrow> row[c := (row ! c)[m := row ! c ! m + v]])
                               weights wu)
                  W (map wu [0..<L]))"
      then have l: "l < L" using len by simp
      have "map2 (\<lambda>row x. case x of None \<Rightarrow> row
                                | Some v \<Rightarrow> row[c := (row ! c)[m := row ! c ! m + v]]) (W ! l) (wu l) =
          map (\<lambda>p. (W ! l ! p)[c := (W ! l ! p ! c)
                         [m := W ! l ! p ! c ! m + nv l p / (dv l p + 0.1 * dm l)]]) [0..<P]"
        using True l lw [OF l] by (intro nth_equalityI) (simp_all add: wu_def)
      then show "map2 (\<lambda>weights wu.
                     if weight_column weights c m = None then weights
                     else map2 (\<lambda>row x. case x of
                                           None \<Rightarrow> row
                                         | Some v \<Rightarrow> row[c := (row ! c)[m := row ! c ! m + v]])
                               weights wu)
                  W (map wu [0..<L]) ! l =
          map (\<lambda>l. map (\<lambda>p. (W ! l ! p)[c := (W ! l ! p ! c)
                         [m := W ! l ! p ! c ! m + nv l p / (dv l p + 0.1 * dm l)]]) [0..<P]) [0..<L] ! l"
        using l len wc [OF l] by simp
    qed
    then show ?thesis unfolding g t if_True py_assert_True by simp
  qed
qed

lemma sequence_e_first:
  assumes "\<forall>x\<in>set xs. (\<exists>y. x = Inr y) \<or> x = Inl e" "Inl e \<in> set xs"
  shows "sequence_e xs = Inl e"
  using assms
proof (induction xs)
  case Nil
  then show ?case by simp
next
  case (Cons x xs)
  show ?case
  proof (cases x)
    case (Inl a)
    with Cons.prems(1) have "a = e" by auto
    with Inl show ?thesis by simp
  next
    case (Inr y)
    with Cons.prems have "Inl e \<in> set xs" "\<forall>x\<in>set xs. (\<exists>y. x = Inr y) \<or> x = Inl e" by auto
    from Cons.IH [OF this(2,1)] Inr show ?thesis by simp
  qed
qed

lemma sequence_e_cases:
  assumes "\<And>w. w < N \<Longrightarrow> f w = (if b w then Inr (g w) else Inl e)"
  shows "sequence_e (map f [0..<N]) = (if \<forall>w<N. b w then Inr (map g [0..<N]) else Inl e)"
proof (cases "\<forall>w<N. b w")
  case True
  then have "sequence_e (map f [0..<N]) = Inr (map g [0..<N])"
    using assms by (intro sequence_e_map_Inr) simp
  with True show ?thesis by simp
next
  case False
  then obtain w where w: "w < N" "\<not> b w" by blast
  have "Inl e \<in> set (map f [0..<N])" using w assms [OF w(1)] by force
  moreover have "\<forall>x\<in>set (map f [0..<N]). (\<exists>y. x = Inr y) \<or> x = Inl e"
    using assms by auto
  ultimately have "sequence_e (map f [0..<N]) = Inl e" by (intro sequence_e_first)
  with False show ?thesis by simp
qed

lemma ebind_if: "ebind (if b then x else y) f = (if b then ebind x f else ebind y f)"
  by simp

lemma pool_map_index:
  assumes "num_workers cm = N" "args = map a [0..<N]"
  shows "pool_map cm f args = sequence_e (map (\<lambda>w. f (a w)) [0..<N])"
  unfolding pool_map_def assms by (simp add: comp_def)

lemma head_assertions_regular:
  assumes N: "0 < N" and len: "length R = N" "length E = N" "length W = N"
    and reg: "regular_worker c m L P Q (R ! 0) (E ! 0) (W ! 0) patches diff"
  shows "head_assertions R E W = Inr ()"
proof -
  obtain R0 Rs where R: "R = R0 # Rs" using N len(1) by (cases R) auto
  obtain E0 Es where E: "E = E0 # Es" using N len(2) by (cases E) auto
  obtain W0 Ws where W: "W = W0 # Ws" using N len(3) by (cases W) auto
  from reg have l: "length R0 = L" "length E0 = L" "length W0 = L"
    and rl: "\<And>l. l < L \<Longrightarrow> regular_lead c m P Q (R0 ! l) (E0 ! l) (W0 ! l) (patches ! l) (diff ! l)"
    by (simp_all add: regular_worker_def R E W)
  have a: "list_all2 (\<lambda>w r. length w = length r) W0 R0"
    using l rl by (simp add: list_all2_conv_all_nth regular_lead_def)
  have b: "list_all2 (\<lambda>r e. list_all (\<lambda>row. list_all (\<lambda>em. list_all (\<lambda>s. length row = length s) em) e) r)
             R0 E0"
    using l rl by (simp add: list_all2_conv_all_nth regular_lead_def list_all_iff)
  show ?thesis
    using l a b by (simp add: head_assertions_def R E W)
qed

lemma those_None: "None \<in> set xs \<Longrightarrow> those xs = None"
  by (induction xs) (auto split: option.splits)

lemma length_local_update [simp]: "length (local_update e R col) = length e"
  by (simp add: local_update_def)

lemma combined_None:
  assumes Q: "0 < Q" and w: "w0 < N" and F: "F w0 = replicate Q None"
  shows "those (map (\<lambda>q. map_option mean_c (those (map (\<lambda>w. F w ! q) [0..<N]))) [0..<Q]) = None"
proof -
  have "F w0 ! 0 = None" using Q F by simp
  then have "None \<in> set (map (\<lambda>w. F w ! 0) [0..<N])" using w by force
  then have "those (map (\<lambda>w. F w ! 0) [0..<N]) = None" by (rule those_None)
  then have "map_option mean_c (those (map (\<lambda>w. F w ! 0) [0..<N])) = None" by simp
  then have "None \<in> set (map (\<lambda>q. map_option mean_c (those (map (\<lambda>w. F w ! q) [0..<N]))) [0..<Q])"
    using Q by force
  then show ?thesis by (rule those_None)
qed

lemma combined_Some:
  assumes F: "\<forall>w<N. F w = map Some (f w) \<and> length (f w) = Q"
  shows "map (\<lambda>q. map_option mean_c (those (map (\<lambda>w. F w ! q) [0..<N]))) [0..<Q] =
         map Some (map (\<lambda>q. (\<Sum>w<N. f w ! q) / of_nat N) [0..<Q])"
proof -
  have "map_option mean_c (those (map (\<lambda>w. F w ! q) [0..<N])) = Some ((\<Sum>w<N. f w ! q) / of_nat N)"
    if "q < Q" for q
  proof -
    have "map (\<lambda>w. F w ! q) [0..<N] = map Some (map (\<lambda>w. f w ! q) [0..<N])"
      using F that by simp
    then show ?thesis by (simp only: those_map_Some option.map mean_c_upt)
  qed
  then show ?thesis by simp
qed

lemma mixed_get_update:
  "get_update 1 0 [[[2], [2]], [[2], [2]]] [[[[1]]], [[[1]]]]
     [[[[1], [0]], [[1], [0]]], [[[1], [1]], [[1], [- 1]]]] = Inr [Some [None], Some [Some 2]]"
  by (simp add: get_update_def get_update_lead_def norm_weights_def weight_column_def eigen_mode_def
      norm2_real_def Let_def mean_c_def mean_r_def)

lemma mixed_reduce_update:
  "reduce_mean_update [[Some [None], Some [Some 2]]] = Inr [Some [None], Some [Some 2]]"
  by (simp add: reduce_mean_update_def reduce_mean_update_lead_def mean_c_def upt_rec)

lemma mixed_get_d:
  "get_d 1 0 1 [[[1], [1]], [[1], [1]]] [[[1], [1]], [[1], [1]]] [[[[1]]], [[[1]]]]
     [Some [None], Some [Some 2]] = Inl AssertionError"
  by (simp add: get_d_def new_mode_lead_def eigen_mode_def mnorm_def mean_r_def Let_def)

lemma mixed_norm_weights:
  "norm_weights [[[[1], [0]], [[1], [0]]], [[[1], [1]], [[1], [- 1]]]] 1 0 = [0, 2]"
  by (simp add: norm_weights_def weight_column_def norm2_real_def)

text \<open>
  Claim C5, as stated: \<open>update_eigen_probe\<close> raises the error ``eigen_probe weights cannot
  all be zero?'' exactly when, on some worker, every entry of \<open>norm_weights\<close> is zero, and when
  at least one entry is not zero the update proceeds. The error is raised exactly then;
  but with an entry that is zero beside one that is not the update does not proceed:
  \<open>_get_update\<close> divides by \<open>norm_weights\<close> (``FIXME: What happens when weights is zero!?''), the
  update is not finite, and the call fails the assertion \<open>np.all(np.isfinite(eigen_probe))\<close>
  of \<open>_get_d\<close>. For one worker and two leading indices, the weight column \<open>(0, 0)\<close> at the
  first and \<open>(1, -1)\<close> at the second, \<open>norm_weights\<close> is \<open>(0, 2)\<close> and the call raises
  \<open>AssertionError\<close>.
\<close>

theorem update_eigen_probe_partial_zero_fails:
  "update_eigen_probe
     \<lparr>num_workers = 1, use_mpi = False,
      Allreduce_mean_update = reduce_mean_update, Allreduce_mean_d = reduce_mean_d\<rparr>
     [[[[2], [2]], [[2], [2]]]] [[[[[1]]], [[[1]]]]]
     [[[[[1], [0]], [[1], [0]]], [[[1], [1]], [[1], [- 1]]]]]
     [[[[1], [1]], [[1], [1]]]] [[[[1], [1]], [[1], [1]]]] 1 1 0 = Inl AssertionError \<and>
   norm_weights [[[[1], [0]], [[1], [0]]], [[[1], [1]], [[1], [- 1]]]] 1 0 = [0, 2]"
proof -
  have ev: "update_eigen_probe
     \<lparr>num_workers = 1, use_mpi = False,
      Allreduce_mean_update = reduce_mean_update, Allreduce_mean_d = reduce_mean_d\<rparr>
     [[[[2], [2]], [[2], [2]]]] [[[[[1]]], [[[1]]]]]
     [[[[[1], [0]], [[1], [0]]], [[[1], [1]], [[1], [- 1]]]]]
     [[[[1], [1]], [[1], [1]]]] [[[[1], [1]], [[1], [1]]]] 1 1 0 = Inl AssertionError"
    using mixed_get_update mixed_reduce_update mixed_get_d
    by (simp add: update_eigen_probe_def head_assertions_def pool_map_def pool_bcast_def)
  show ?thesis by (rule conjI [OF ev mixed_norm_weights])
qed

lemma ex_less_one: "(\<exists>w<Suc 0. P w) \<longleftrightarrow> P 0"
  by simp

lemma ex_less_two: "(\<exists>l<Suc (Suc 0). P l) \<longleftrightarrow> P 0 \<or> P (Suc 0)"
  by (auto simp: less_Suc_eq)

lemma wit_local:
  "local_update [2] [[2], [2]] [1, - 1] = [4]" "local_update [2] [[2], [2]] [1, 1] = [5]"
  by (simp_all add: local_update_def sq_norm_def lessThan_Suc numeral_2_eq_2)

lemma update_eigen_probe_by_index:
  fixes P :: "nat \<Rightarrow> nat"
  assumes cm: "num_workers cm = N"
    and mpi: "use_mpi cm \<longrightarrow> Allreduce_mean_update cm = reduce_mean_update \<and>
                           Allreduce_mean_d cm = reduce_mean_d"
    and N: "0 < N" and Q: "0 < Q"
    and len: "length R = N" "length E = N" "length W = N" "length patches = N" "length diff = N"
    and reg: "\<forall>w<N. regular_worker c m L (P w) Q (R ! w) (E ! w) (W ! w) (patches ! w) (diff ! w)"
  shows "update_eigen_probe cm R E W patches diff \<beta> c m =
     (if \<exists>w<N. \<forall>l<L. sq_norm (selected_column (W ! w ! l) c m) = 0 then Inl WeightsAllZero
      else if (\<exists>w<N. \<exists>l<L. sq_norm (selected_column (W ! w ! l) c m) = 0) \<or>
              (\<exists>l<L. mnorm (combined_update c m R E W l) = 0) \<or>
              (\<exists>w<N. \<exists>l<L. mnorm (relaxed_mode \<beta> (selected_mode (E ! w ! l) c m)
                                        (combined_update c m R E W l)) = 0) \<or>
              (\<exists>w<N. \<exists>l<L. \<exists>p<P w.
                 mode_energy (patches ! w ! l ! p) (new_mode c m \<beta> R E W w l) +
                 0.1 * mean_energy c m \<beta> R E W patches l = 0)
      then Inl AssertionError
      else Inr (updated_probe c m \<beta> R E W, updated_weights c m \<beta> R E W patches diff))"
proof -
  define sq where "sq = (\<lambda>w l. sq_norm (selected_column (W ! w ! l) c m))"
  define lu where "lu = (\<lambda>w l. local_update (selected_mode (E ! w ! l) c m) (R ! w ! l)
                                  (selected_column (W ! w ! l) c m))"
  define F where "F = (\<lambda>w l. if sq w l = 0 then replicate Q None else map Some (lu w l))"
  define G where "G = (\<lambda>l. map (\<lambda>q. map_option mean_c (those (map (\<lambda>w. F w l ! q) [0..<N]))) [0..<Q])"
  define cu where "cu = combined_update c m R E W"
  define e2 where "e2 = new_mode c m \<beta> R E W"
  define dm where "dm = mean_energy c m \<beta> R E W patches"
  have rw: "regular_worker c m L (P w) Q (R ! w) (E ! w) (W ! w) (patches ! w) (diff ! w)"
    if "w < N" for w using reg that by simp
  have rl: "regular_lead c m (P w) Q (R ! w ! l) (E ! w ! l) (W ! w ! l) (patches ! w ! l) (diff ! w ! l)"
    if "w < N" "l < L" for w l using rw [OF that(1)] that(2) by (simp add: regular_worker_def)
  have lens: "length (R ! w) = L" "length (E ! w) = L" "length (W ! w) = L" if "w < N" for w
    using rw [OF that] by (simp_all add: regular_worker_def)
  have lw: "length (W ! w ! l) = P w" if "w < N" "l < L" for w l
    using rl [OF that] by (simp add: regular_lead_def)
  have lm: "length (selected_mode (E ! w ! l) c m) = Q" if "w < N" "l < L" for w l
    by (rule regular_lead_mode(2) [OF rl [OF that]])
  have ha: "head_assertions R E W = Inr ()"
    by (rule head_assertions_regular [OF N len(1,2,3) rw [OF N]])
  have mu: "(if use_mpi cm then Allreduce_mean_update cm x else reduce_mean_update x) =
      reduce_mean_update x" for x
    using mpi by simp
  have md: "(if use_mpi cm then Allreduce_mean_d cm x else reduce_mean_d x) = reduce_mean_d x" for x
    using mpi by simp
  have z3: "zip R (zip E W) = map (\<lambda>w. (R ! w, E ! w, W ! w)) [0..<N]"
    using zip3_upt [of E R W] len by simp
  have st1: "pool_map cm (\<lambda>(R, eigen_probe, weights). get_update c m R eigen_probe weights)
               (zip R (zip E W)) =
      (if \<forall>w<N. \<not> (\<forall>l<L. sq w l = 0) then Inr (map (\<lambda>w. map (\<lambda>l. Some (F w l)) [0..<L]) [0..<N])
       else Inl WeightsAllZero)"
  proof -
    have "pool_map cm (\<lambda>(R, eigen_probe, weights). get_update c m R eigen_probe weights)
               (zip R (zip E W)) =
        sequence_e (map (\<lambda>w. get_update c m (R ! w) (E ! w) (W ! w)) [0..<N])"
      by (simp only: pool_map_index [OF cm z3] prod.case)
    also have "\<dots> = (if \<forall>w<N. \<not> (\<forall>l<L. sq w l = 0)
                      then Inr (map (\<lambda>w. map (\<lambda>l. Some (F w l)) [0..<L]) [0..<N])
                      else Inl WeightsAllZero)"
      by (rule sequence_e_cases) (simp add: get_update_regular [OF rw] sq_def F_def lu_def)
    finally show ?thesis .
  qed
  show ?thesis
  proof (cases "\<exists>w<N. \<forall>l<L. sq w l = 0")
    case True
    then have "pool_map cm (\<lambda>(R, eigen_probe, weights). get_update c m R eigen_probe weights)
               (zip R (zip E W)) = Inl WeightsAllZero"
      unfolding st1 by simp
    then have "update_eigen_probe cm R E W patches diff \<beta> c m = Inl WeightsAllZero"
      by (simp add: update_eigen_probe_def ha)
    then show ?thesis using True by (simp add: sq_def)
  next
    case False
    have Ppos: "0 < P w" if "w < N" for w
    proof (rule ccontr)
      assume "\<not> 0 < P w"
      then have "W ! w ! l = []" if "l < L" for l using lw [OF \<open>w < N\<close> that] by simp
      then have "\<forall>l<L. sq w l = 0" by (simp add: sq_def selected_column_def)
      with False that show False by blast
    qed
    have u1: "pool_map cm (\<lambda>(R, eigen_probe, weights). get_update c m R eigen_probe weights)
               (zip R (zip E W)) = Inr (map (\<lambda>w. map (\<lambda>l. Some (F w l)) [0..<L]) [0..<N])"
      unfolding st1 using False by simp
    have lF: "\<forall>w<N. \<forall>l<L. length (F w l) = Q"
      using lm by (simp add: F_def lu_def)
    have u2: "reduce_mean_update (map (\<lambda>w. map (\<lambda>l. Some (F w l)) [0..<L]) [0..<N]) =
        Inr (map (\<lambda>l. Some (G l)) [0..<L])"
      unfolding G_def by (rule reduce_mean_update_regular [OF N lF])
    have lG: "\<forall>l<L. length (G l) = Q" by (simp add: G_def)
    have Gnone: "those (G l) = None" if "l < L" "w < N" "sq w l = 0" for w l
      unfolding G_def by (rule combined_None [OF Q that(2)]) (simp add: F_def that(3))
    have Gsome: "G l = map Some (cu l)" if "l < L" "\<forall>w<N. sq w l \<noteq> 0" for l
    proof -
      have "\<forall>w<N. F w l = map Some (lu w l) \<and> length (lu w l) = Q"
        using that lm by (simp add: F_def lu_def)
      from combined_Some [OF this] have "G l = map Some (map (\<lambda>q. (\<Sum>w<N. lu w l ! q) / of_nat N) [0..<Q])"
        by (simp only: G_def)
      moreover have "cu l = map (\<lambda>q. (\<Sum>w<N. lu w l ! q) / of_nat N) [0..<Q]"
        by (simp only: cu_def combined_update_def len(3) lm [OF N that(1)] lu_def)
      ultimately show ?thesis by simp
    qed
    define ok where "ok = (\<lambda>w l. \<exists>u. those (G l) = Some u \<and> mnorm u \<noteq> 0 \<and>
                    mnorm (relaxed_mode \<beta> (selected_mode (E ! w ! l) c m) u) \<noteq> 0)"
    define res where "res = (\<lambda>w.
       (map (\<lambda>l. (E ! w ! l)[c - 1 := (E ! w ! l ! (c - 1))
                     [m := unit_mode (relaxed_mode \<beta> (selected_mode (E ! w ! l) c m) (the (those (G l))))]])
            [0..<L],
        map (\<lambda>l. map (\<lambda>p. Some (overlap (diff ! w ! l ! p) (patches ! w ! l ! p)
                  (unit_mode (relaxed_mode \<beta> (selected_mode (E ! w ! l) c m) (the (those (G l)))))))
                     [0..<P w]) [0..<L],
        map (\<lambda>l. map (\<lambda>p. Some (mode_energy (patches ! w ! l ! p)
                  (unit_mode (relaxed_mode \<beta> (selected_mode (E ! w ! l) c m) (the (those (G l)))))))
                     [0..<P w]) [0..<L],
        map (\<lambda>l. Some ((\<Sum>p<P w. mode_energy (patches ! w ! l ! p)
                  (unit_mode (relaxed_mode \<beta> (selected_mode (E ! w ! l) c m) (the (those (G l))))))
                           / real (P w))) [0..<L]))"
    have z4: "zip patches (zip diff (zip E (pool_bcast cm (map (\<lambda>l. Some (G l)) [0..<L])))) =
        map (\<lambda>w. (patches ! w, diff ! w, E ! w, map (\<lambda>l. Some (G l)) [0..<L])) [0..<N]"
      using len cm by (intro nth_equalityI) (simp_all add: pool_bcast_def)
    have u3: "pool_map cm (\<lambda>(patches, diff, eigen_probe, update).
                          get_d c m \<beta> patches diff eigen_probe update)
              (zip patches (zip diff (zip E (pool_bcast cm (map (\<lambda>l. Some (G l)) [0..<L]))))) =
        (if \<forall>w<N. \<forall>l<L. ok w l then Inr (map res [0..<N]) else Inl AssertionError)"
    proof -
      have "pool_map cm (\<lambda>(patches, diff, eigen_probe, update).
                          get_d c m \<beta> patches diff eigen_probe update)
              (zip patches (zip diff (zip E (pool_bcast cm (map (\<lambda>l. Some (G l)) [0..<L]))))) =
          sequence_e (map (\<lambda>w. get_d c m \<beta> (patches ! w) (diff ! w) (E ! w)
                                  (map (\<lambda>l. Some (G l)) [0..<L])) [0..<N])"
        by (simp only: pool_map_index [OF cm z4] prod.case)
      also have "\<dots> = (if \<forall>w<N. \<forall>l<L. ok w l then Inr (map res [0..<N]) else Inl AssertionError)"
      proof (rule sequence_e_cases)
        fix w assume w: "w < N"
        show "get_d c m \<beta> (patches ! w) (diff ! w) (E ! w) (map (\<lambda>l. Some (G l)) [0..<L]) =
            (if \<forall>l<L. ok w l then Inr (res w) else Inl AssertionError)"
          unfolding ok_def res_def
          by (rule get_d_regular [OF rw [OF w] Q Ppos [OF w] lG])
      qed
      finally show ?thesis .
    qed
    have okeq: "(\<forall>w<N. \<forall>l<L. ok w l) \<longleftrightarrow>
        \<not> ((\<exists>w<N. \<exists>l<L. sq w l = 0) \<or> (\<exists>l<L. mnorm (cu l) = 0) \<or>
           (\<exists>w<N. \<exists>l<L. mnorm (relaxed_mode \<beta> (selected_mode (E ! w ! l) c m) (cu l)) = 0))"
    proof (cases "\<exists>w<N. \<exists>l<L. sq w l = 0")
      case True
      then obtain w l where wl: "w < N" "l < L" "sq w l = 0" by blast
      have "\<not> ok 0 l" using Gnone [OF wl(2,1,3)] by (simp add: ok_def)
      then have "\<not> (\<forall>w<N. \<forall>l<L. ok w l)" using N wl(2) by blast
      with True show ?thesis by blast
    next
      case False
      have g: "G l = map Some (cu l)" if "l < L" for l using Gsome [OF that] False that by blast
      have "ok w l \<longleftrightarrow> mnorm (cu l) \<noteq> 0 \<and>
          mnorm (relaxed_mode \<beta> (selected_mode (E ! w ! l) c m) (cu l)) \<noteq> 0" if "l < L" for w l
        by (simp add: ok_def g [OF that] those_map_Some)
      then show ?thesis using False N by auto
    qed
    show ?thesis
    proof (cases "\<forall>w<N. \<forall>l<L. ok w l")
      case nok: False
      then have nokF: "(\<forall>w<N. \<forall>l<L. ok w l) = False" by simp
      have u3n: "pool_map cm (\<lambda>(patches, diff, eigen_probe, update).
                          get_d c m \<beta> patches diff eigen_probe update)
              (zip patches (zip diff (zip E (pool_bcast cm (map (\<lambda>l. Some (G l)) [0..<L]))))) =
          Inl AssertionError"
        unfolding u3 nokF if_False ..
      have "update_eigen_probe cm R E W patches diff \<beta> c m = Inl AssertionError"
        unfolding update_eigen_probe_def
        by (simp only: ha u1 mu md u2 u3n Let_def ebind_Inr ebind_Inl)
      moreover have "(\<exists>w<N. \<exists>l<L. sq w l = 0) \<or> (\<exists>l<L. mnorm (cu l) = 0) \<or>
           (\<exists>w<N. \<exists>l<L. mnorm (relaxed_mode \<beta> (selected_mode (E ! w ! l) c m) (cu l)) = 0)"
        using nok okeq by blast
      ultimately show ?thesis
        using False unfolding sq_def cu_def by auto
    next
      case allok: True
      have nd: "\<not> ((\<exists>w<N. \<exists>l<L. sq w l = 0) \<or> (\<exists>l<L. mnorm (cu l) = 0) \<or>
           (\<exists>w<N. \<exists>l<L. mnorm (relaxed_mode \<beta> (selected_mode (E ! w ! l) c m) (cu l)) = 0))"
        using allok okeq by blast
      have g: "G l = map Some (cu l)" if "l < L" for l using Gsome [OF that] nd that by blast
      have tg: "unit_mode (relaxed_mode \<beta> (selected_mode (E ! w ! l) c m) (the (those (G l)))) = e2 w l"
        if "l < L" for w l
        by (simp add: g [OF that] those_map_Some e2_def new_mode_def cu_def)
      define Dm where "Dm = (\<lambda>w l. (\<Sum>p<P w. mode_energy (patches ! w ! l ! p) (e2 w l)) / real (P w))"
      have res: "res w =
         (map (\<lambda>l. (E ! w ! l)[c - 1 := (E ! w ! l ! (c - 1))[m := e2 w l]]) [0..<L],
          map (\<lambda>l. map (\<lambda>p. Some (overlap (diff ! w ! l ! p) (patches ! w ! l ! p) (e2 w l)))
                       [0..<P w]) [0..<L],
          map (\<lambda>l. map (\<lambda>p. Some (mode_energy (patches ! w ! l ! p) (e2 w l))) [0..<P w]) [0..<L],
          map (\<lambda>l. Some (Dm w l)) [0..<L])" for w
        unfolding res_def Dm_def by (simp add: tg)
      have u3': "pool_map cm (\<lambda>(patches, diff, eigen_probe, update).
                          get_d c m \<beta> patches diff eigen_probe update)
              (zip patches (zip diff (zip E (pool_bcast cm (map (\<lambda>l. Some (G l)) [0..<L]))))) =
          Inr (map res [0..<N])"
      proof -
        have "(\<forall>w<N. \<forall>l<L. ok w l) = True" using allok by simp
        then show ?thesis unfolding u3 by (simp only: if_True)
      qed
      have u4: "reduce_mean_d (map (snd \<circ> snd \<circ> snd) (map res [0..<N])) =
          Inr (map (\<lambda>l. Some (dm l)) [0..<L])"
      proof -
        have a: "map (snd \<circ> snd \<circ> snd) (map res [0..<N]) =
            map (\<lambda>w. map (\<lambda>l. Some (Dm w l)) [0..<L]) [0..<N]"
          by (simp add: res)
        have b: "map (\<lambda>l. Some ((\<Sum>w<N. Dm w l) / real N)) [0..<L] =
            map (\<lambda>l. Some (dm l)) [0..<L]"
        proof (rule map_cong [OF refl])
          fix l assume "l \<in> set [0..<L]"
          then have l: "l < L" by simp
          have "(\<Sum>w<N. Dm w l) = (\<Sum>w<N. (\<Sum>p<length (W ! w ! l).
                          mode_energy (patches ! w ! l ! p) (new_mode c m \<beta> R E W w l)) /
                      real (length (W ! w ! l)))"
            by (rule sum.cong [OF refl]) (simp add: Dm_def e2_def lw l)
          then show "Some ((\<Sum>w<N. Dm w l) / real N) = Some (dm l)"
            by (simp add: dm_def mean_energy_def len(3))
        qed
        show ?thesis unfolding a using reduce_mean_d_regular [OF N, of Dm L] unfolding b .
      qed
      define W' where "W' = (\<lambda>w. map (\<lambda>l. map (\<lambda>p. (W ! w ! l ! p)[c := (W ! w ! l ! p ! c)
           [m := W ! w ! l ! p ! c ! m +
                 overlap (diff ! w ! l ! p) (patches ! w ! l ! p) (e2 w l) /
                 (mode_energy (patches ! w ! l ! p) (e2 w l) + 0.1 * dm l)]]) [0..<P w]) [0..<L])"
      have z5: "zip (map (fst \<circ> snd) (map res [0..<N]))
                  (zip (map (fst \<circ> snd \<circ> snd) (map res [0..<N]))
                     (zip (pool_bcast cm (map (\<lambda>l. Some (dm l)) [0..<L])) W)) =
          map (\<lambda>w. (fst (snd (res w)), fst (snd (snd (res w))), map (\<lambda>l. Some (dm l)) [0..<L], W ! w))
              [0..<N]"
        using len cm by (intro nth_equalityI) (simp_all add: pool_bcast_def)
      have u5: "pool_map cm (\<lambda>(n, d, d_mean, weights). get_weights_mean c m n d d_mean weights)
              (zip (map (fst \<circ> snd) (map res [0..<N]))
                  (zip (map (fst \<circ> snd \<circ> snd) (map res [0..<N]))
                     (zip (pool_bcast cm (map (\<lambda>l. Some (dm l)) [0..<L])) W))) =
          (if \<forall>w<N. \<forall>l<L. \<forall>p<P w. mode_energy (patches ! w ! l ! p) (e2 w l) + 0.1 * dm l \<noteq> 0
           then Inr (map W' [0..<N]) else Inl AssertionError)"
      proof -
        have "pool_map cm (\<lambda>(n, d, d_mean, weights). get_weights_mean c m n d d_mean weights)
              (zip (map (fst \<circ> snd) (map res [0..<N]))
                  (zip (map (fst \<circ> snd \<circ> snd) (map res [0..<N]))
                     (zip (pool_bcast cm (map (\<lambda>l. Some (dm l)) [0..<L])) W))) =
            sequence_e (map (\<lambda>w. get_weights_mean c m (fst (snd (res w))) (fst (snd (snd (res w))))
                                    (map (\<lambda>l. Some (dm l)) [0..<L]) (W ! w)) [0..<N])"
          by (simp only: pool_map_index [OF cm z5] prod.case)
        also have "\<dots> = (if \<forall>w<N. \<forall>l<L. \<forall>p<P w.
                               mode_energy (patches ! w ! l ! p) (e2 w l) + 0.1 * dm l \<noteq> 0
                          then Inr (map W' [0..<N]) else Inl AssertionError)"
        proof (rule sequence_e_cases)
          fix w assume w: "w < N"
          show "get_weights_mean c m (fst (snd (res w))) (fst (snd (snd (res w))))
                  (map (\<lambda>l. Some (dm l)) [0..<L]) (W ! w) =
              (if \<forall>l<L. \<forall>p<P w. mode_energy (patches ! w ! l ! p) (e2 w l) + 0.1 * dm l \<noteq> 0
               then Inr (W' w) else Inl AssertionError)"
            unfolding res fst_conv snd_conv W'_def
            by (rule get_weights_mean_regular [OF rw [OF w] Ppos [OF w]])
        qed
        finally show ?thesis .
      qed
      have E': "map fst (map res [0..<N]) = updated_probe c m \<beta> R E W"
      proof -
        have "map fst (map res [0..<N]) =
            map (\<lambda>w. map (\<lambda>l. (E ! w ! l)[c - 1 := (E ! w ! l ! (c - 1))[m := e2 w l]]) [0..<L]) [0..<N]"
          by (simp add: res)
        also have "\<dots> = updated_probe c m \<beta> R E W"
          unfolding updated_probe_def len(2)
          by (rule map_cong [OF refl]) (simp add: lens e2_def)
        finally show ?thesis .
      qed
      have W'': "map W' [0..<N] = updated_weights c m \<beta> R E W patches diff"
        unfolding updated_weights_def len(3)
      proof (rule map_cong [OF refl])
        fix w assume "w \<in> set [0..<N]"
        then have w: "w < N" by simp
        have "W' w = map (\<lambda>l. map (\<lambda>p. (W ! w ! l ! p)
                                   [c := (W ! w ! l ! p ! c)
                                      [m := W ! w ! l ! p ! c ! m +
                                            weight_increment c m \<beta> R E W patches diff w l p]])
                             [0..<length (W ! w ! l)]) [0..<L]"
          unfolding W'_def
          by (rule map_cong [OF refl]) (simp add: lw [OF w] weight_increment_def e2_def dm_def)
        then show "W' w = map (\<lambda>l. map (\<lambda>p. (W ! w ! l ! p)
                                   [c := (W ! w ! l ! p ! c)
                                      [m := W ! w ! l ! p ! c ! m +
                                            weight_increment c m \<beta> R E W patches diff w l p]])
                             [0..<length (W ! w ! l)]) [0..<length (W ! w)]"
          by (simp only: lens(3) [OF w])
      qed
      have whole: "update_eigen_probe cm R E W patches diff \<beta> c m =
          (if \<forall>w<N. \<forall>l<L. \<forall>p<P w. mode_energy (patches ! w ! l ! p) (e2 w l) + 0.1 * dm l \<noteq> 0
           then Inr (updated_probe c m \<beta> R E W, updated_weights c m \<beta> R E W patches diff)
           else Inl AssertionError)"
        unfolding update_eigen_probe_def
        by (simp only: ha u1 mu md u2 u3' u4 u5 E' W'' Let_def ebind_Inr ebind_Inl ebind_if)
      show ?thesis
      proof (cases "\<forall>w<N. \<forall>l<L. \<forall>p<P w. mode_energy (patches ! w ! l ! p) (e2 w l) + 0.1 * dm l \<noteq> 0")
        case True
        then have "\<not> (\<exists>w<N. \<exists>l<L. \<exists>p<P w.
                 mode_energy (patches ! w ! l ! p) (e2 w l) + 0.1 * dm l = 0)" by blast
        with True whole nd False show ?thesis
          unfolding sq_def cu_def e2_def dm_def by auto
      next
        case f: False
        then have "\<exists>w<N. \<exists>l<L. \<exists>p<P w.
                 mode_energy (patches ! w ! l ! p) (e2 w l) + 0.1 * dm l = 0" by blast
        with f whole False show ?thesis
          unfolding sq_def cu_def e2_def dm_def by auto
      qed
    qed
  qed
qed

text \<open>
  Claim C5, amended: for a call with the documented shapes (\<open>N \<ge> 1\<close> workers, \<open>L\<close> leading
  indices, \<open>P w\<close> positions on worker \<open>w\<close>, \<open>Q \<ge> 1\<close> pixels; on one node, or with a cross-node
  mean that acts as the mean over the workers), \<open>update_eigen_probe\<close> raises the error
  ``eigen_probe weights cannot all be zero?'' exactly when, on some worker, every entry of
  \<open>norm_weights\<close> (the squared magnitude of the selected weight column accumulated over the
  positions, one entry for every leading index) is zero. Otherwise nothing is replaced by a
  default. When an entry of \<open>norm_weights\<close> is zero on some worker, or the combined update or
  the relaxed mode has \<open>mnorm\<close> zero, or an energy
  \<open>d + 0.1 * d_mean\<close> is zero, a division by zero makes an array non-finite and the call
  raises \<open>AssertionError\<close>. In every other case the call returns: the selected eigen mode is
  moved by \<open>\<beta>\<close> times the mean over the workers of their updates, divided by its \<open>mnorm\<close>, and
  divided by its own \<open>mnorm\<close>; the selected weight column gets \<open>n / (d + 0.1 * d_mean)\<close>
  added, computed from the new mode; nothing else changes.
\<close>

theorem update_eigen_probe_outcome:
  fixes P :: "nat \<Rightarrow> nat"
  assumes cm: "num_workers cm = N"
    and mpi: "use_mpi cm \<longrightarrow> Allreduce_mean_update cm = reduce_mean_update \<and>
                           Allreduce_mean_d cm = reduce_mean_d"
    and N: "0 < N" and Q: "0 < Q"
    and len: "length R = N" "length E = N" "length W = N" "length patches = N" "length diff = N"
    and reg: "\<forall>w<N. regular_worker c m L (P w) Q (R ! w) (E ! w) (W ! w) (patches ! w) (diff ! w)"
  shows "update_eigen_probe cm R E W patches diff \<beta> c m =
     (if \<exists>w<N. list_all (\<lambda>x. x = 0) (norm_weights (W ! w) c m) then Inl WeightsAllZero
      else if (\<exists>w<N. 0 \<in> set (norm_weights (W ! w) c m)) \<or>
              (\<exists>l<L. mnorm (combined_update c m R E W l) = 0) \<or>
              (\<exists>w<N. \<exists>l<L. mnorm (relaxed_mode \<beta> (selected_mode (E ! w ! l) c m)
                                        (combined_update c m R E W l)) = 0) \<or>
              (\<exists>w<N. \<exists>l<L. \<exists>p<P w.
                 mode_energy (patches ! w ! l ! p) (new_mode c m \<beta> R E W w l) +
                 0.1 * mean_energy c m \<beta> R E W patches l = 0)
      then Inl AssertionError
      else Inr (updated_probe c m \<beta> R E W, updated_weights c m \<beta> R E W patches diff))"
proof -
  have rw: "regular_worker c m L (P w) Q (R ! w) (E ! w) (W ! w) (patches ! w) (diff ! w)"
    if "w < N" for w using reg that by simp
  have all: "list_all (\<lambda>x. x = 0) (norm_weights (W ! w) c m) \<longleftrightarrow>
      (\<forall>l<L. sq_norm (selected_column (W ! w ! l) c m) = 0)" if "w < N" for w
    by (rule norm_weights_worker(1) [OF rw [OF that]])
  have A: "(\<exists>w<N. list_all (\<lambda>x. x = 0) (norm_weights (W ! w) c m)) =
      (\<exists>w<N. \<forall>l<L. sq_norm (selected_column (W ! w ! l) c m) = 0)"
    using all by auto
  note ix = update_eigen_probe_by_index [OF cm mpi N Q len reg]
  show ?thesis
  proof (cases "\<exists>w<N. \<forall>l<L. sq_norm (selected_column (W ! w ! l) c m) = 0")
    case True
    then have t: "(\<exists>w<N. \<forall>l<L. sq_norm (selected_column (W ! w ! l) c m) = 0) = True" by simp
    show ?thesis unfolding ix A t if_True ..
  next
    case False
    then have f: "(\<exists>w<N. \<forall>l<L. sq_norm (selected_column (W ! w ! l) c m) = 0) = False" by simp
    have some: "0 \<in> set (norm_weights (W ! w) c m) \<longleftrightarrow>
        (\<exists>l<L. sq_norm (selected_column (W ! w ! l) c m) = 0)" if "w < N" for w
    proof (rule norm_weights_worker(2) [OF rw [OF that]])
      show "\<not> (\<forall>l<L. sq_norm (selected_column (W ! w ! l) c m) = 0)"
        using False that by blast
    qed
    have B: "(\<exists>w<N. 0 \<in> set (norm_weights (W ! w) c m)) =
        (\<exists>w<N. \<exists>l<L. sq_norm (selected_column (W ! w ! l) c m) = 0)"
      using some by auto
    show ?thesis unfolding ix A f if_False B ..
  qed
qed

theorem update_eigen_probe_outcome_witness:
  "update_eigen_probe
     \<lparr>num_workers = 1, use_mpi = False,
      Allreduce_mean_update = reduce_mean_update, Allreduce_mean_d = reduce_mean_d\<rparr>
     [[[[2], [2]], [[2], [2]]]] [[[[[2]]], [[[2]]]]]
     [[[[[1], [1]], [[1], [- 1]]], [[[1], [1]], [[1], [1]]]]]
     [[[[1], [1]], [[1], [1]]]] [[[[1], [1]], [[1], [1]]]] 1 1 0 =
   Inr ([[[[[1]]], [[[1]]]]],
        [[[[[1], [21 / 11]], [[1], [- 1 / 11]]], [[[1], [21 / 11]], [[1], [21 / 11]]]]]) \<and>
   update_eigen_probe
     \<lparr>num_workers = 1, use_mpi = False,
      Allreduce_mean_update = reduce_mean_update, Allreduce_mean_d = reduce_mean_d\<rparr>
     [[[[2], [2]], [[2], [2]]]] [[[[[2]]], [[[2]]]]]
     [[[[[1], [0]], [[1], [0]]], [[[1], [0]], [[1], [0]]]]]
     [[[[1], [1]], [[1], [1]]]] [[[[1], [1]], [[1], [1]]]] 1 1 0 = Inl WeightsAllZero"
proof -
  let ?cm = "\<lparr>num_workers = 1, use_mpi = False,
      Allreduce_mean_update = reduce_mean_update, Allreduce_mean_d = reduce_mean_d\<rparr>"
  let ?R = "[[[[2], [2]], [[2], [2 :: complex]]]]"
  let ?E = "[[[[[2 :: complex]]], [[[2]]]]]"
  let ?W = "[[[[[1], [1]], [[1], [- 1]]], [[[1], [1]], [[1], [1 :: real]]]]]"
  let ?A = "[[[[1], [1]], [[1], [1 :: complex]]]]"
  have reg: "\<forall>w<Suc 0. regular_worker (Suc 0) 0 (Suc (Suc 0)) ((\<lambda>_. Suc (Suc 0)) w) (Suc 0)
                 (?R ! w) (?E ! w) (?W ! w) (?A ! w) (?A ! w)"
    by (simp add: regular_worker_def regular_lead_def All_less_Suc)
  have sel: "selected_mode [[[2]]] (Suc 0) 0 = [2]"
    "selected_column [[[1], [1]], [[1], [- 1]]] (Suc 0) 0 = [1, - 1]"
    "selected_column [[[1], [1]], [[1], [1]]] (Suc 0) 0 = [1, 1]"
    by (simp_all add: selected_mode_def selected_column_def)
  have cu: "combined_update (Suc 0) 0 ?R ?E ?W 0 = [4]" "combined_update (Suc 0) 0 ?R ?E ?W (Suc 0) = [5]"
    by (simp_all add: combined_update_def sel wit_local)
  have rm: "relaxed_mode 1 [2] [4] = [3]" "relaxed_mode 1 [2] [5] = [3]"
    by (simp_all add: relaxed_mode_def mnorm_def mean_r_def)
  have nm: "new_mode (Suc 0) 0 1 ?R ?E ?W 0 0 = [1]" "new_mode (Suc 0) 0 1 ?R ?E ?W 0 (Suc 0) = [1]"
    by (simp_all add: new_mode_def sel cu rm unit_mode_def mnorm_def mean_r_def)
  have en: "mode_energy [1] [1] = 1" "overlap [1] [1] [1] = 1"
    by (simp_all add: mode_energy_def overlap_def)
  have me: "mean_energy (Suc 0) 0 1 ?R ?E ?W ?A 0 = 1" "mean_energy (Suc 0) 0 1 ?R ?E ?W ?A (Suc 0) = 1"
    by (simp_all add: mean_energy_def nm en lessThan_Suc)
  have wi: "weight_increment (Suc 0) 0 1 ?R ?E ?W ?A ?A 0 l p = 10 / 11" if "l < Suc (Suc 0)" "p < Suc (Suc 0)" for l p
    using that by (auto simp: weight_increment_def nm en me less_Suc_eq)
  have up: "updated_probe (Suc 0) 0 1 ?R ?E ?W = [[[[[1]]], [[[1]]]]]"
    by (simp add: updated_probe_def nm upt_rec)
  have uw: "updated_weights (Suc 0) 0 1 ?R ?E ?W ?A ?A =
      [[[[[1], [21 / 11]], [[1], [- 1 / 11]]], [[[1], [21 / 11]], [[1], [21 / 11]]]]]"
    by (simp add: updated_weights_def wi upt_rec)
  have mn: "mnorm [4] = 4" "mnorm [5] = 5" "mnorm [3] = 3"
    by (simp_all add: mnorm_def mean_r_def)
  have nwv: "norm_weights [[[[1], [1]], [[1], [- 1]]], [[[1], [1]], [[1], [1]]]] (Suc 0) 0 = [2, 2]"
    "norm_weights [[[[1], [0]], [[1], [0]]], [[[1], [0]], [[1], [0]]]] (Suc 0) 0 = [0, 0]"
    by (simp_all add: norm_weights_def weight_column_def norm2_real_def)
  have nz: "\<not> (\<exists>w<Suc 0. list_all (\<lambda>x. x = 0) (norm_weights (?W ! w) (Suc 0) 0))"
    by (simp add: ex_less_one nwv)
  have nd: "\<not> ((\<exists>w<Suc 0. 0 \<in> set (norm_weights (?W ! w) (Suc 0) 0)) \<or>
              (\<exists>l<Suc (Suc 0). mnorm (combined_update (Suc 0) 0 ?R ?E ?W l) = 0) \<or>
              (\<exists>w<Suc 0. \<exists>l<Suc (Suc 0). mnorm (relaxed_mode 1 (selected_mode (?E ! w ! l) (Suc 0) 0)
                                        (combined_update (Suc 0) 0 ?R ?E ?W l)) = 0) \<or>
              (\<exists>w<Suc 0. \<exists>l<Suc (Suc 0). \<exists>p<Suc (Suc 0).
                 mode_energy (?A ! w ! l ! p) (new_mode (Suc 0) 0 1 ?R ?E ?W w l) +
                 0.1 * mean_energy (Suc 0) 0 1 ?R ?E ?W ?A l = 0))"
    by (simp add: ex_less_one ex_less_two nwv sel cu rm mn nm en me)
  have h: "num_workers ?cm = Suc 0"
    "use_mpi ?cm \<longrightarrow> Allreduce_mean_update ?cm = reduce_mean_update \<and>
                       Allreduce_mean_d ?cm = reduce_mean_d"
    "0 < Suc 0" "length ?R = Suc 0" "length ?E = Suc 0" "length ?W = Suc 0" "length ?A = Suc 0"
    by simp_all
  note th = update_eigen_probe_outcome [where cm = ?cm and N = "Suc 0" and Q = "Suc 0"
      and L = "Suc (Suc 0)" and P = "\<lambda>_. Suc (Suc 0)" and R = ?R and E = ?E and W = ?W
      and patches = ?A and diff = ?A and c = "Suc 0" and m = 0 and \<beta> = 1,
      OF h(1) h(2) h(3) h(3) h(4) h(5) h(6) h(7) h(7) reg]
  have "update_eigen_probe ?cm ?R ?E ?W ?A ?A 1 (Suc 0) 0 =
      Inr (updated_probe (Suc 0) 0 1 ?R ?E ?W, updated_weights (Suc 0) 0 1 ?R ?E ?W ?A ?A)"
  proof -
    from nz have nzF: "(\<exists>w<Suc 0. list_all (\<lambda>x. x = 0) (norm_weights (?W ! w) (Suc 0) 0)) = False"
      by (rule eq_False [THEN iffD2])
    from nd have ndF: "((\<exists>w<Suc 0. 0 \<in> set (norm_weights (?W ! w) (Suc 0) 0)) \<or>
              (\<exists>l<Suc (Suc 0). mnorm (combined_update (Suc 0) 0 ?R ?E ?W l) = 0) \<or>
              (\<exists>w<Suc 0. \<exists>l<Suc (Suc 0). mnorm (relaxed_mode 1 (selected_mode (?E ! w ! l) (Suc 0) 0)
                                        (combined_update (Suc 0) 0 ?R ?E ?W l)) = 0) \<or>
              (\<exists>w<Suc 0. \<exists>l<Suc (Suc 0). \<exists>p<Suc (Suc 0).
                 mode_energy (?A ! w ! l ! p) (new_mode (Suc 0) 0 1 ?R ?E ?W w l) +
                 0.1 * mean_energy (Suc 0) 0 1 ?R ?E ?W ?A l = 0)) = False"
      by (rule eq_False [THEN iffD2])
    show ?thesis by (simp only: th nzF ndF if_False)
  qed
  then have first: "update_eigen_probe ?cm ?R ?E ?W ?A ?A 1 1 0 =
      Inr ([[[[[1]]], [[[1]]]]],
           [[[[[1], [21 / 11]], [[1], [- 1 / 11]]], [[[1], [21 / 11]], [[1], [21 / 11]]]]])"
    by (simp add: up uw)
  let ?Z = "[[[[[1], [0]], [[1], [0]]], [[[1], [0]], [[1], [0 :: real]]]]]"
  have regz: "\<forall>w<Suc 0. regular_worker (Suc 0) 0 (Suc (Suc 0)) ((\<lambda>_. Suc (Suc 0)) w) (Suc 0)
                 (?R ! w) (?E ! w) (?Z ! w) (?A ! w) (?A ! w)"
    by (simp add: regular_worker_def regular_lead_def All_less_Suc)
  have z: "(\<exists>w<Suc 0. list_all (\<lambda>x. x = 0) (norm_weights (?Z ! w) (Suc 0) 0)) = True"
    by (simp add: ex_less_one nwv)
  have hz: "length ?Z = Suc 0" by simp
  note thz = update_eigen_probe_outcome [where cm = ?cm and N = "Suc 0" and Q = "Suc 0"
      and L = "Suc (Suc 0)" and P = "\<lambda>_. Suc (Suc 0)" and R = ?R and E = ?E and W = ?Z
      and patches = ?A and diff = ?A and c = "Suc 0" and m = 0 and \<beta> = 1,
      OF h(1) h(2) h(3) h(3) h(4) h(5) hz h(7) h(7) regz]
  have "update_eigen_probe ?cm ?R ?E ?Z ?A ?A 1 (Suc 0) 0 = Inl WeightsAllZero"
    by (simp only: thz z if_True)
  then have second: "update_eigen_probe ?cm ?R ?E ?Z ?A ?A 1 1 0 = Inl WeightsAllZero" by simp
  from first second show ?thesis by (rule conjI)
qed

lemma sum_list_shift: "sum_list (map (\<lambda>x. x - c) xs) = sum_list xs - real (length xs) * (c::real)"
  by (induction xs) (simp_all add: algebra_simps)

lemma mean_r_centered:
  assumes "xs \<noteq> []"
  shows "mean_r (map (\<lambda>x. x - mean_r xs) xs) = 0"
proof -
  have l: "real (length xs) \<noteq> 0" using assms by simp
  have "sum_list (map (\<lambda>x. x - mean_r xs) xs) = sum_list xs - real (length xs) * mean_r xs"
    by (rule sum_list_shift)
  also have "\<dots> = 0" using l by (simp add: mean_r_def)
  finally show ?thesis by (simp add: mean_r_def)
qed

text \<open>
  Claim C4: the weights are zero-mean over the positions for every eigen mode, with the
  zeroth weight row nonzero; \<open>init_varying_probe\<close> establishes this and every
  \<open>update_eigen_probe\<close> keeps it. The initialisation does establish it (in exact arithmetic,
  for at least one position): the zeroth row is \<open>1\<close> and every other column has mean zero.
\<close>

lemma init_varying_probe_invariant:
  assumes sh: "has_shape rnd E S" and ne: "rnd \<noteq> []" and E: "1 \<le> num_eigen" "int E = num_eigen"
    and pw: "0 \<le> pwm" "pwm \<le> int S"
  shows "\<exists>ep W. init_varying_probe rnd rnd_eigen S num_eigen pwm = Inr (ep, Some W) \<and>
           length W = length rnd \<and>
           (\<forall>p<length rnd. \<forall>s<S. W ! p ! 0 ! s = 1) \<and>
           (\<forall>e<E. \<forall>s<S. 1 \<le> e \<longrightarrow> column_mean W e s = 0)"
proof -
  define n where "n = nat pwm"
  define w1 where "w1 = map (map (map (\<lambda>r. r / 10 ^ 6))) rnd"
  define w2 where "w2 = map (\<lambda>row. map (\<lambda>e. map (\<lambda>s. row ! e ! s - column_mean w1 e s)
                                                  [0..<length (row ! e)])
                                        [0..<length row]) w1"
  define w3 where "w3 = map (\<lambda>row. row[0 := map (\<lambda>_. 1) (row ! 0)]) w2"
  define w4 where "w4 = map (\<lambda>row. take 1 row @
                                   map (\<lambda>e. take n e @ map (\<lambda>_. 0) (drop n e)) (drop 1 row)) w3"
  have E0: "0 < E" using E by linarith
  have l1: "length w1 = length rnd" by (simp add: w1_def)
  have sh1: "has_shape w1 E S" using sh by (simp add: has_shape_def w1_def list_all_length)
  have r1a: "length (w1 ! p) = E" if "p < length rnd" for p
    using has_shape_nth(1) [OF sh1, of p] that l1 by simp
  have r1b: "length (w1 ! p ! e) = S" if "p < length rnd" "e < E" for p e
    using has_shape_nth(2) [OF sh1, of p e] that l1 by simp
  have l2: "length w2 = length rnd" by (simp add: w2_def l1)
  have r2a: "length (w2 ! p) = E" if "p < length rnd" for p
    using that r1a [OF that] l1 by (simp add: w2_def)
  have r2b: "length (w2 ! p ! e) = S" if "p < length rnd" "e < E" for p e
    using that r1a [OF that(1)] r1b [OF that] l1 by (simp add: w2_def)
  have n2: "w2 ! p ! e ! s = w1 ! p ! e ! s - column_mean w1 e s"
    if "p < length rnd" "e < E" "s < S" for p e s
    using that r1a [OF that(1)] r1b [OF that(1,2)] l1 by (simp add: w2_def)
  have l3: "length w3 = length rnd" by (simp add: w3_def l2)
  have r3a: "length (w3 ! p) = E" if "p < length rnd" for p
    using that r2a [OF that] l2 by (simp add: w3_def)
  have r3b: "length (w3 ! p ! e) = S" if "p < length rnd" "e < E" for p e
    using that r2a [OF that(1)] r2b [OF that] r2b [OF that(1) E0] l2
    by (cases "e = 0") (simp_all add: w3_def)
  have n3: "w3 ! p ! e ! s = (if e = 0 then 1 else w2 ! p ! e ! s)"
    if "p < length rnd" "e < E" "s < S" for p e s
    using that r2a [OF that(1)] r2b [OF that(1) E0] l2 by (simp add: w3_def)
  have l4: "length w4 = length rnd" by (simp add: w4_def l3)
  have n4: "w4 ! p ! e ! s = (if e = 0 then 1 else if s < n then w2 ! p ! e ! s else 0)"
    if "p < length rnd" "e < E" "s < S" for p e s
  proof (cases "e = 0")
    case True
    have "w4 ! p ! 0 = w3 ! p ! 0"
      using that(1) r3a [OF that(1)] l3 E0
      by (simp add: w4_def nth_append take_Suc_conv_app_nth)
    then show ?thesis using True n3 [OF that(1) E0 that(3)] by simp
  next
    case False
    then obtain e' where e': "e = Suc e'" by (cases e) auto
    have le: "length (w3 ! p ! e) = S" using r3b [OF that(1,2)] .
    have "w4 ! p ! e = take n (w3 ! p ! e) @ map (\<lambda>_. 0) (drop n (w3 ! p ! e))"
      using that r3a [OF that(1)] l3 E0 e'
      by (simp add: w4_def nth_append min_def)
    then show ?thesis
      using False that le n3 [OF that] by (simp add: nth_append)
  qed
  have res: "init_varying_probe rnd rnd_eigen S num_eigen pwm =
      Inr (if num_eigen = 1 then None
           else Some (map (map (\<lambda>im. if im \<noteq> [] \<and> mnorm im = 0 then None
                                       else Some (map (\<lambda>z. z / of_real (mnorm im)) im)))
                           rnd_eigen), Some w4)"
    using E pw
    by (simp add: init_varying_probe_def Let_def w1_def w2_def w3_def w4_def n_def max_def)
  have zero: "column_mean w4 e s = 0" if "e < E" "s < S" "1 \<le> e" for e s
  proof -
    have e0: "e \<noteq> 0" using that by simp
    show ?thesis
    proof (cases "s < n")
      case True
      have col: "map (\<lambda>row. row ! e ! s) w4 =
          map (\<lambda>x. x - mean_r (map (\<lambda>row. row ! e ! s) w1)) (map (\<lambda>row. row ! e ! s) w1)"
        by (rule nth_equalityI)
          (use l4 l1 n4 n2 that e0 True in \<open>simp_all add: column_mean_def\<close>)
      have "map (\<lambda>row. row ! e ! s) w1 \<noteq> []" using ne l1 by auto
      from mean_r_centered [OF this] show ?thesis
        unfolding column_mean_def col .
    next
      case False
      have col: "map (\<lambda>row. row ! e ! s) w4 = map (\<lambda>_. 0) w4"
        by (rule nth_equalityI) (use l4 n4 that e0 False in simp_all)
      show ?thesis unfolding column_mean_def col by (simp add: mean_r_def)
    qed
  qed
  show ?thesis
    unfolding res
    by (intro exI conjI) (rule refl, use l4 n4 E0 zero in simp_all)
qed

lemma stage_get_update:
  "get_update 1 0 [[[2], [2]]] [[[[1]]]] [[[[1], [1]], [[1], [- 1]]]] = Inr [Some [Some 2]]"
  by (simp add: get_update_def get_update_lead_def norm_weights_def weight_column_def eigen_mode_def
      norm2_real_def Let_def mean_c_def mean_r_def)

lemma stage_reduce_update: "reduce_mean_update [[Some [Some 2]]] = Inr [Some [Some 2]]"
  by (simp add: reduce_mean_update_def reduce_mean_update_lead_def mean_c_def)

lemma stage_get_d:
  "get_d 1 0 1 [[[1], [1]]] [[[1], [1]]] [[[[1]]]] [Some [Some 2]] =
   Inr ([[[[1]]]], [[Some 1, Some 1]], [[Some 1, Some 1]], [Some 1])"
  by (simp add: get_d_def new_mode_lead_def get_d_lead_def eigen_mode_def mnorm_def mean_r_def Let_def)

lemma stage_reduce_d: "reduce_mean_d [[Some 1]] = Inr [Some 1]"
  by (simp add: reduce_mean_d_def mean_r_def)

lemma stage_get_weights_mean:
  "get_weights_mean 1 0 [[Some 1, Some 1]] [[Some 1, Some 1]] [Some 1] [[[[1], [1]], [[1], [- 1]]]] =
   Inr [[[[1], [21 / 11]], [[1], [- 1 / 11]]]]"
  by (simp add: get_weights_mean_def weight_update_lead_def weight_column_def del: not_None_eq)

text \<open>
  Claim C4, the update: it does not keep the invariant. \<open>_get_weights_mean\<close> adds \<open>n / d\<close> to
  the weight column and never removes the mean, although its comment reads ``the sum of all
  previous steps constrained to zero-mean''. For one worker with one leading index, two
  positions, one pixel, residuals \<open>2\<close>, eigen probe \<open>1\<close>, patches and differences \<open>1\<close>,
  \<open>\<beta> = 1\<close> and the weight column \<open>(1, -1)\<close> of mean zero, the returned column is
  \<open>(21/11, -1/11)\<close>, of mean \<open>10/11\<close>.
\<close>

theorem update_eigen_probe_breaks_zero_mean:
  "update_eigen_probe
     \<lparr>num_workers = 1, use_mpi = False,
      Allreduce_mean_update = reduce_mean_update, Allreduce_mean_d = reduce_mean_d\<rparr>
     [[[[2], [2]]]] [[[[[1]]]]] [[[[[1], [1]], [[1], [- 1]]]]] [[[[1], [1]]]] [[[[1], [1]]]] 1 1 0 =
   Inr ([[[[[1]]]]], [[[[[1], [21 / 11]], [[1], [- 1 / 11]]]]]) \<and>
   column_mean [[[1], [1]], [[1], [- 1]]] 1 0 = 0 \<and>
   column_mean [[[1], [21 / 11]], [[1], [- 1 / 11]]] 1 0 = 10 / 11"
proof -
  have "update_eigen_probe
     \<lparr>num_workers = 1, use_mpi = False,
      Allreduce_mean_update = reduce_mean_update, Allreduce_mean_d = reduce_mean_d\<rparr>
     [[[[2], [2]]]] [[[[[1]]]]] [[[[[1], [1]], [[1], [- 1]]]]] [[[[1], [1]]]] [[[[1], [1]]]] 1 1 0 =
   Inr ([[[[[1]]]]], [[[[[1], [21 / 11]], [[1], [- 1 / 11]]]]])"
    using stage_get_update stage_reduce_update stage_get_d stage_reduce_d stage_get_weights_mean
    by (simp add: update_eigen_probe_def head_assertions_def pool_map_def pool_bcast_def)
  then show ?thesis by (simp add: column_mean_def mean_r_def)
qed

end
